theory Spec2Isabelle
  imports Main "HOL-Library.Word"
begin

unbundle bit_operations_syntax

section \<open>Path queue and per-path state (integrator_path_state.h)\<close>

text \<open>
  The enum \<^verbatim>\<open>IntegratorPathKernel\<close>. Its last enumerator, \<^verbatim>\<open>INTEGRATOR_KERNEL_NUM\<close>,
  is the number of kernels and the size of the counter array; it is not a kernel and is a
  constant of its own below.
\<close>

datatype IntegratorPathKernel =
    INTEGRATOR_KERNEL_intersect_closest
  | INTEGRATOR_KERNEL_intersect_shadow
  | INTEGRATOR_KERNEL_intersect_subsurface
  | INTEGRATOR_KERNEL_shade_background
  | INTEGRATOR_KERNEL_shade_surface
  | INTEGRATOR_KERNEL_shade_volume
  | INTEGRATOR_KERNEL_shade_shadow

text \<open>The numeric value of each enumerator: they count up from 0.\<close>

fun kernel_index :: "IntegratorPathKernel \<Rightarrow> nat" where
  "kernel_index INTEGRATOR_KERNEL_intersect_closest = 0"
| "kernel_index INTEGRATOR_KERNEL_intersect_shadow = 1"
| "kernel_index INTEGRATOR_KERNEL_intersect_subsurface = 2"
| "kernel_index INTEGRATOR_KERNEL_shade_background = 3"
| "kernel_index INTEGRATOR_KERNEL_shade_surface = 4"
| "kernel_index INTEGRATOR_KERNEL_shade_volume = 5"
| "kernel_index INTEGRATOR_KERNEL_shade_shadow = 6"

definition INTEGRATOR_KERNEL_NUM :: nat where
  "INTEGRATOR_KERNEL_NUM = 7"

definition all_kernels :: "IntegratorPathKernel list" where
  "all_kernels =
     [INTEGRATOR_KERNEL_intersect_closest, INTEGRATOR_KERNEL_intersect_shadow,
      INTEGRATOR_KERNEL_intersect_subsurface, INTEGRATOR_KERNEL_shade_background,
      INTEGRATOR_KERNEL_shade_surface, INTEGRATOR_KERNEL_shade_volume,
      INTEGRATOR_KERNEL_shade_shadow]"

type_synonym u16 = "16 word"
type_synonym u32 = "32 word"

text \<open>
  \<^verbatim>\<open>struct IntegratorPathQueue { int num_queued[INTEGRATOR_KERNEL_NUM]; }\<close>.
  The macros index the array only through \<^verbatim>\<open>INTEGRATOR_KERNEL_##name\<close>, so the array is a
  total function from the seven kernels to their slot. Every access goes through
  \<^verbatim>\<open>atomic_fetch_and_add_uint32\<close> / \<^verbatim>\<open>atomic_fetch_and_sub_uint32\<close>, which treat the slot
  as an unsigned 32-bit value that wraps; a slot is therefore a \<^typ>\<open>32 word\<close>.
\<close>

type_synonym IntegratorPathQueue = "IntegratorPathKernel \<Rightarrow> u32"

text \<open>
  Modelled from the spec: the members \<^verbatim>\<open>flag\<close> and \<^verbatim>\<open>queued_kernels\<close> of the
  \<^verbatim>\<open>path\<close> and \<^verbatim>\<open>shadow_path\<close> integrator state, reached through
  \<^verbatim>\<open>INTEGRATOR_STATE\<close> and \<^verbatim>\<open>INTEGRATOR_STATE_WRITE\<close>, are declared outside this header.
  The spec gives each path a liveness flag and a bitmask of the kernels queued for it. The
  flag is taken as an unsigned 32-bit value and the bitmask as an unsigned 16-bit value,
  wide enough for one bit per kernel.
\<close>

record IntegratorState =
  path_flag :: u32
  path_queued_kernels :: u16
  shadow_path_flag :: u32
  shadow_path_queued_kernels :: u16

text \<open>
  What a macro body can reach: the counter array behind the pointer \<^verbatim>\<open>queue\<close> and the
  integrator state of the path the kernel invocation is running for.
\<close>

record kernel_env =
  queue :: IntegratorPathQueue
  state :: IntegratorState

text \<open>\<^verbatim>\<open>(1 << INTEGRATOR_KERNEL_##kernel)\<close>, as it lands in the 16-bit bitmask.\<close>

definition kernel_bit :: "IntegratorPathKernel \<Rightarrow> u16" where
  "kernel_bit k = push_bit (kernel_index k) 1"

text \<open>
  The sequential effect of \<^verbatim>\<open>atomic_fetch_and_add_uint32(&queue->num_queued[k], 1)\<close> and of
  \<^verbatim>\<open>atomic_fetch_and_sub_uint32(&queue->num_queued[k], 1)\<close>; the fetched old value is
  discarded by the macros.
\<close>

definition atomic_fetch_and_add_uint32 :: "IntegratorPathQueue \<Rightarrow> IntegratorPathKernel \<Rightarrow> IntegratorPathQueue" where
  "atomic_fetch_and_add_uint32 q k = q(k := q k + 1)"

definition atomic_fetch_and_sub_uint32 :: "IntegratorPathQueue \<Rightarrow> IntegratorPathKernel \<Rightarrow> IntegratorPathQueue" where
  "atomic_fetch_and_sub_uint32 q k = q(k := q k - 1)"

definition INTEGRATOR_PATH_IS_TERMINATED :: "kernel_env \<Rightarrow> bool" where
  "INTEGRATOR_PATH_IS_TERMINATED e = (path_flag (state e) = 0)"

definition INTEGRATOR_SHADOW_PATH_IS_TERMINATED :: "kernel_env \<Rightarrow> bool" where
  "INTEGRATOR_SHADOW_PATH_IS_TERMINATED e = (shadow_path_flag (state e) = 0)"

subsection \<open>The macros under \<^verbatim>\<open>__KERNEL_GPU__\<close>\<close>

definition INTEGRATOR_PATH_INIT :: "IntegratorPathKernel \<Rightarrow> kernel_env \<Rightarrow> kernel_env" where
  "INTEGRATOR_PATH_INIT next_kernel e =
     (let e1 = e\<lparr>queue := atomic_fetch_and_add_uint32 (queue e) next_kernel\<rparr>
      in e1\<lparr>state := (state e1)\<lparr>path_queued_kernels :=
               path_queued_kernels (state e1) OR kernel_bit next_kernel\<rparr>\<rparr>)"

definition INTEGRATOR_PATH_NEXT :: "IntegratorPathKernel \<Rightarrow> IntegratorPathKernel \<Rightarrow> kernel_env \<Rightarrow> kernel_env" where
  "INTEGRATOR_PATH_NEXT current_kernel next_kernel e =
     (let e1 = e\<lparr>queue := atomic_fetch_and_sub_uint32 (queue e) current_kernel\<rparr>;
          e2 = e1\<lparr>queue := atomic_fetch_and_add_uint32 (queue e1) next_kernel\<rparr>;
          e3 = e2\<lparr>state := (state e2)\<lparr>path_queued_kernels :=
                 path_queued_kernels (state e2) OR kernel_bit next_kernel\<rparr>\<rparr>
      in e3\<lparr>state := (state e3)\<lparr>path_queued_kernels :=
               path_queued_kernels (state e3) AND NOT (kernel_bit current_kernel)\<rparr>\<rparr>)"

definition INTEGRATOR_PATH_TERMINATE :: "IntegratorPathKernel \<Rightarrow> kernel_env \<Rightarrow> kernel_env" where
  "INTEGRATOR_PATH_TERMINATE current_kernel e =
     (let e1 = e\<lparr>queue := atomic_fetch_and_sub_uint32 (queue e) current_kernel\<rparr>;
          e2 = e1\<lparr>state := (state e1)\<lparr>path_queued_kernels :=
                 path_queued_kernels (state e1) AND NOT (kernel_bit current_kernel)\<rparr>\<rparr>
      in e2\<lparr>state := (state e2)\<lparr>path_flag := 0\<rparr>\<rparr>)"

definition INTEGRATOR_SHADOW_PATH_INIT :: "IntegratorPathKernel \<Rightarrow> kernel_env \<Rightarrow> kernel_env" where
  "INTEGRATOR_SHADOW_PATH_INIT next_kernel e =
     (let e1 = e\<lparr>queue := atomic_fetch_and_add_uint32 (queue e) next_kernel\<rparr>
      in e1\<lparr>state := (state e1)\<lparr>shadow_path_queued_kernels :=
               shadow_path_queued_kernels (state e1) OR kernel_bit next_kernel\<rparr>\<rparr>)"

definition INTEGRATOR_SHADOW_PATH_NEXT :: "IntegratorPathKernel \<Rightarrow> IntegratorPathKernel \<Rightarrow> kernel_env \<Rightarrow> kernel_env" where
  "INTEGRATOR_SHADOW_PATH_NEXT current_kernel next_kernel e =
     (let e1 = e\<lparr>queue := atomic_fetch_and_sub_uint32 (queue e) current_kernel\<rparr>;
          e2 = e1\<lparr>queue := atomic_fetch_and_add_uint32 (queue e1) next_kernel\<rparr>;
          e3 = e2\<lparr>state := (state e2)\<lparr>shadow_path_queued_kernels :=
                 shadow_path_queued_kernels (state e2) OR kernel_bit next_kernel\<rparr>\<rparr>
      in e3\<lparr>state := (state e3)\<lparr>shadow_path_queued_kernels :=
               shadow_path_queued_kernels (state e3) AND NOT (kernel_bit current_kernel)\<rparr>\<rparr>)"

definition INTEGRATOR_SHADOW_PATH_TERMINATE :: "IntegratorPathKernel \<Rightarrow> kernel_env \<Rightarrow> kernel_env" where
  "INTEGRATOR_SHADOW_PATH_TERMINATE current_kernel e =
     (let e1 = e\<lparr>queue := atomic_fetch_and_sub_uint32 (queue e) current_kernel\<rparr>;
          e2 = e1\<lparr>state := (state e1)\<lparr>shadow_path_queued_kernels :=
                 shadow_path_queued_kernels (state e1) AND NOT (kernel_bit current_kernel)\<rparr>\<rparr>
      in e2\<lparr>state := (state e2)\<lparr>shadow_path_flag := 0\<rparr>\<rparr>)"

subsection \<open>The macros of the \<^verbatim>\<open>#else\<close> branch (no \<^verbatim>\<open>__KERNEL_GPU__\<close>)\<close>

definition INTEGRATOR_PATH_INIT_host :: "IntegratorPathKernel \<Rightarrow> kernel_env \<Rightarrow> kernel_env" where
  "INTEGRATOR_PATH_INIT_host next_kernel e = e"

definition INTEGRATOR_PATH_NEXT_host :: "IntegratorPathKernel \<Rightarrow> IntegratorPathKernel \<Rightarrow> kernel_env \<Rightarrow> kernel_env" where
  "INTEGRATOR_PATH_NEXT_host current_kernel next_kernel e = e"

definition INTEGRATOR_PATH_TERMINATE_host :: "IntegratorPathKernel \<Rightarrow> kernel_env \<Rightarrow> kernel_env" where
  "INTEGRATOR_PATH_TERMINATE_host current_kernel e = e\<lparr>state := (state e)\<lparr>path_flag := 0\<rparr>\<rparr>"

definition INTEGRATOR_SHADOW_PATH_INIT_host :: "IntegratorPathKernel \<Rightarrow> kernel_env \<Rightarrow> kernel_env" where
  "INTEGRATOR_SHADOW_PATH_INIT_host next_kernel e = e"

definition INTEGRATOR_SHADOW_PATH_NEXT_host :: "IntegratorPathKernel \<Rightarrow> IntegratorPathKernel \<Rightarrow> kernel_env \<Rightarrow> kernel_env" where
  "INTEGRATOR_SHADOW_PATH_NEXT_host current_kernel next_kernel e = e"

definition INTEGRATOR_SHADOW_PATH_TERMINATE_host :: "IntegratorPathKernel \<Rightarrow> kernel_env \<Rightarrow> kernel_env" where
  "INTEGRATOR_SHADOW_PATH_TERMINATE_host current_kernel e =
     e\<lparr>state := (state e)\<lparr>shadow_path_flag := 0\<rparr>\<rparr>"

subsection \<open>Transitions of one path\<close>

text \<open>
  The header names two families of macros, one for the main path and one for the shadow
  path, each with the three transitions INIT, NEXT and TERMINATE. A transition and the path
  it is invoked for select the macro.
\<close>

datatype path_kind = Main_Path | Shadow_Path

datatype transition =
    INIT IntegratorPathKernel
  | NEXT IntegratorPathKernel IntegratorPathKernel
  | TERMINATE IntegratorPathKernel

fun flag_of :: "path_kind \<Rightarrow> IntegratorState \<Rightarrow> u32" where
  "flag_of Main_Path s = path_flag s"
| "flag_of Shadow_Path s = shadow_path_flag s"

fun queued_of :: "path_kind \<Rightarrow> IntegratorState \<Rightarrow> u16" where
  "queued_of Main_Path s = path_queued_kernels s"
| "queued_of Shadow_Path s = shadow_path_queued_kernels s"

fun exec_gpu :: "path_kind \<Rightarrow> transition \<Rightarrow> kernel_env \<Rightarrow> kernel_env" where
  "exec_gpu Main_Path (INIT k) e = INTEGRATOR_PATH_INIT k e"
| "exec_gpu Main_Path (NEXT c n) e = INTEGRATOR_PATH_NEXT c n e"
| "exec_gpu Main_Path (TERMINATE c) e = INTEGRATOR_PATH_TERMINATE c e"
| "exec_gpu Shadow_Path (INIT k) e = INTEGRATOR_SHADOW_PATH_INIT k e"
| "exec_gpu Shadow_Path (NEXT c n) e = INTEGRATOR_SHADOW_PATH_NEXT c n e"
| "exec_gpu Shadow_Path (TERMINATE c) e = INTEGRATOR_SHADOW_PATH_TERMINATE c e"

fun exec_host :: "path_kind \<Rightarrow> transition \<Rightarrow> kernel_env \<Rightarrow> kernel_env" where
  "exec_host Main_Path (INIT k) e = INTEGRATOR_PATH_INIT_host k e"
| "exec_host Main_Path (NEXT c n) e = INTEGRATOR_PATH_NEXT_host c n e"
| "exec_host Main_Path (TERMINATE c) e = INTEGRATOR_PATH_TERMINATE_host c e"
| "exec_host Shadow_Path (INIT k) e = INTEGRATOR_SHADOW_PATH_INIT_host k e"
| "exec_host Shadow_Path (NEXT c n) e = INTEGRATOR_SHADOW_PATH_NEXT_host c n e"
| "exec_host Shadow_Path (TERMINATE c) e = INTEGRATOR_SHADOW_PATH_TERMINATE_host c e"

text \<open>A sequence of macro invocations on one path state, in program order.\<close>

fun run_gpu :: "(path_kind \<times> transition) list \<Rightarrow> kernel_env \<Rightarrow> kernel_env" where
  "run_gpu [] e = e"
| "run_gpu ((w, t) # ts) e = run_gpu ts (exec_gpu w t e)"

fun run_host :: "(path_kind \<times> transition) list \<Rightarrow> kernel_env \<Rightarrow> kernel_env" where
  "run_host [] e = e"
| "run_host ((w, t) # ts) e = run_host ts (exec_host w t e)"

subsection \<open>The protocol of the state machine\<close>

text \<open>The bit of kernel \<open>k\<close> is set in a queued-kernel bitmask.\<close>

definition queued_on :: "u16 \<Rightarrow> IntegratorPathKernel \<Rightarrow> bool" where
  "queued_on m k = (m AND kernel_bit k \<noteq> 0)"

text \<open>
  The protocol precondition in the words of the invariant: INIT is for a freshly created
  path, one with nothing queued, and NEXT and TERMINATE name as current kernel a kernel the
  path is queued on.
\<close>

fun names_queued_kernel :: "transition \<Rightarrow> u16 \<Rightarrow> bool" where
  "names_queued_kernel (INIT k) m = (m = 0)"
| "names_queued_kernel (NEXT c n) m = queued_on m c"
| "names_queued_kernel (TERMINATE c) m = queued_on m c"

text \<open>The same precondition, with NEXT restricted to two different kernels.\<close>

fun transition_ok :: "transition \<Rightarrow> u16 \<Rightarrow> bool" where
  "transition_ok (INIT k) m = (m = 0)"
| "transition_ok (NEXT c n) m = (queued_on m c \<and> c \<noteq> n)"
| "transition_ok (TERMINATE c) m = queued_on m c"

text \<open>A well-formed bitmask: empty, or the bit of a single kernel.\<close>

definition mask_wellformed :: "u16 \<Rightarrow> bool" where
  "mask_wellformed m = (m = 0 \<or> m \<in> set (map kernel_bit all_kernels))"

text \<open>
  The bitmask invariant of one path: the mask is empty or the bit of a single kernel, and
  a live path (flag non-zero) never has the empty mask.
\<close>

definition mask_inv :: "u32 \<Rightarrow> u16 \<Rightarrow> bool" where
  "mask_inv f m = ((m = 0 \<or> m \<in> set (map kernel_bit all_kernels)) \<and> (f \<noteq> 0 \<longrightarrow> m \<noteq> 0))"

definition path_inv :: "path_kind \<Rightarrow> IntegratorState \<Rightarrow> bool" where
  "path_inv w s = mask_inv (flag_of w s) (queued_of w s)"

text \<open>The mask a path is left with by a transition: the kernel it now waits on, or none.\<close>

fun waiting_mask :: "transition \<Rightarrow> u16" where
  "waiting_mask (INIT k) = kernel_bit k"
| "waiting_mask (NEXT c n) = kernel_bit n"
| "waiting_mask (TERMINATE c) = 0"

text \<open>
  Runs of the state machine of one path: each step is one of the three macros, checked
  against a protocol precondition; a step that violates it has no successor.
\<close>

fun path_run :: "(transition \<Rightarrow> u16 \<Rightarrow> bool) \<Rightarrow> path_kind \<Rightarrow> transition list \<Rightarrow> kernel_env \<Rightarrow> kernel_env option" where
  "path_run pre w [] e = Some e"
| "path_run pre w (t # ts) e =
     (if pre t (queued_of w (state e)) then path_run pre w ts (exec_gpu w t e) else None)"

subsection \<open>A batch of paths sharing one counter array\<close>

text \<open>
  All paths of a batch update the same \<^verbatim>\<open>IntegratorPathQueue\<close>; each path slot has its
  own integrator state. A kernel invocation for the path in slot \<open>i\<close> runs a macro on the
  shared counters and on that slot.
\<close>

record batch =
  counters :: IntegratorPathQueue
  paths :: "IntegratorState list"

definition zero_queue :: IntegratorPathQueue where
  "zero_queue k = 0"

definition fresh_state :: IntegratorState where
  "fresh_state = \<lparr>path_flag = 0, path_queued_kernels = 0,
                    shadow_path_flag = 0, shadow_path_queued_kernels = 0\<rparr>"

definition new_batch :: "nat \<Rightarrow> batch" where
  "new_batch n = \<lparr>counters = zero_queue, paths = replicate n fresh_state\<rparr>"

text \<open>
  Modelled from the spec: the kernels that create a path and mark it alive are not part of
  the source files; the macros themselves never set a flag to a non-zero value. The spec
  has INIT mark a freshly created path as queued, and reuses a slot only when its liveness
  flag is clear. \<open>Create f k\<close> is that creation: the write
  \<^verbatim>\<open>INTEGRATOR_STATE_WRITE(path, flag) = f\<close> of a non-zero flag followed by INIT for \<open>k\<close>.
  \<open>Continue\<close> and \<open>Finish\<close> are the bare NEXT and TERMINATE macros.
\<close>

datatype invocation =
    Create u32 IntegratorPathKernel
  | Continue IntegratorPathKernel IntegratorPathKernel
  | Finish IntegratorPathKernel

fun write_flag :: "path_kind \<Rightarrow> u32 \<Rightarrow> kernel_env \<Rightarrow> kernel_env" where
  "write_flag Main_Path f e = e\<lparr>state := (state e)\<lparr>path_flag := f\<rparr>\<rparr>"
| "write_flag Shadow_Path f e = e\<lparr>state := (state e)\<lparr>shadow_path_flag := f\<rparr>\<rparr>"

fun invoke :: "path_kind \<Rightarrow> invocation \<Rightarrow> kernel_env \<Rightarrow> kernel_env" where
  "invoke w (Create f k) e = exec_gpu w (INIT k) (write_flag w f e)"
| "invoke w (Continue c n) e = exec_gpu w (NEXT c n) e"
| "invoke w (Finish c) e = exec_gpu w (TERMINATE c) e"

text \<open>
  The protocol of a kernel invocation: a path is created in a slot whose flag is clear and
  that has nothing queued, with a non-zero flag; NEXT and TERMINATE name as current kernel
  a kernel the path is queued on (\<open>names_queued_kernel\<close>).
\<close>

fun invocation_ok :: "invocation \<Rightarrow> path_kind \<Rightarrow> IntegratorState \<Rightarrow> bool" where
  "invocation_ok (Create f k) w s = (f \<noteq> 0 \<and> flag_of w s = 0 \<and> queued_of w s = 0)"
| "invocation_ok (Continue c n) w s = names_queued_kernel (NEXT c n) (queued_of w s)"
| "invocation_ok (Finish c) w s = names_queued_kernel (TERMINATE c) (queued_of w s)"

definition batch_step :: "nat \<Rightarrow> path_kind \<Rightarrow> invocation \<Rightarrow> batch \<Rightarrow> batch option" where
  "batch_step i w v b =
     (if i < length (paths b) \<and> invocation_ok v w (paths b ! i)
      then (let e = invoke w v \<lparr>queue = counters b, state = paths b ! i\<rparr>
            in Some \<lparr>counters = queue e, paths = (paths b)[i := state e]\<rparr>)
      else None)"

fun batch_run :: "(nat \<times> path_kind \<times> invocation) list \<Rightarrow> batch \<Rightarrow> batch option" where
  "batch_run [] b = Some b"
| "batch_run ((i, w, v) # vs) b =
     (case batch_step i w v b of None \<Rightarrow> None | Some b' \<Rightarrow> batch_run vs b')"

text \<open>The sum over all slots of the counter array, in the counters' own arithmetic.\<close>

definition sum_queued :: "IntegratorPathQueue \<Rightarrow> u32" where
  "sum_queued q = sum_list (map q all_kernels)"

text \<open>The number of paths, main and shadow, whose liveness flag is set.\<close>

definition live_count :: "IntegratorState list \<Rightarrow> nat" where
  "live_count ps = length (filter (\<lambda>s. path_flag s \<noteq> 0) ps)
                 + length (filter (\<lambda>s. shadow_path_flag s \<noteq> 0) ps)"

text \<open>The number of paths, main and shadow, whose bitmask is the bit of kernel \<open>k\<close>.\<close>

definition count_on :: "IntegratorPathKernel \<Rightarrow> IntegratorState list \<Rightarrow> nat" where
  "count_on k ps = length (filter (\<lambda>s. path_queued_kernels s = kernel_bit k) ps)
                 + length (filter (\<lambda>s. shadow_path_queued_kernels s = kernel_bit k) ps)"

text \<open>
  The sum over all slots of the counter array, each slot read as the \<^verbatim>\<open>int\<close> it is
  declared as.
\<close>

definition sum_num_queued :: "IntegratorPathQueue \<Rightarrow> int" where
  "sum_num_queued q = sum_list (map (\<lambda>k. sint (q k)) all_kernels)"

text \<open>
  The invariant of a batch between kernel rounds: a dead path has an empty mask, every
  mask is empty or the bit of one kernel, each counter is at least the number of paths
  queued on its kernel, and the counters, read as unsigned numbers, add up to the number
  of live paths.
\<close>

definition slot_inv :: "u32 \<Rightarrow> u16 \<Rightarrow> bool" where
  "slot_inv f m = ((f = 0 \<longrightarrow> m = 0) \<and> (m = 0 \<or> m \<in> set (map kernel_bit all_kernels)))"

definition state_inv :: "IntegratorState \<Rightarrow> bool" where
  "state_inv s = (slot_inv (path_flag s) (path_queued_kernels s)
                \<and> slot_inv (shadow_path_flag s) (shadow_path_queued_kernels s))"

definition batch_inv :: "batch \<Rightarrow> bool" where
  "batch_inv b = (list_all state_inv (paths b)
                \<and> list_all (\<lambda>k. count_on k (paths b) \<le> unat (counters b k)) all_kernels
                \<and> sum_list (map (\<lambda>k. unat (counters b k)) all_kernels) = live_count (paths b))"

section \<open>Device queue (class \<^verbatim>\<open>DeviceQueue\<close>)\<close>

text \<open>
  Modelled from the spec: \<^verbatim>\<open>DeviceQueue::enqueue\<close> and \<^verbatim>\<open>DeviceQueue::synchronize\<close> are
  pure virtual in the source and no implementation is part of the source files. The spec
  has \<^verbatim>\<open>enqueue\<close> return false if this or any prior enqueue on the queue has failed, and
  \<^verbatim>\<open>synchronize\<close> wait for all previously enqueued work and return false if any enqueued
  kernel reported failure; the comments on the declarations say the same ("Return false
  if there was an error executing this or a previous kernel", "Return false if there was
  an error executing any of the enqueued kernels"). The queue therefore remembers that an
  error was reported (\<open>have_error\<close>) and how much enqueued work is not yet known to be
  complete (\<open>pending_work\<close>). The boolean argument of each call says whether the device
  executes that call without reporting an error.
\<close>

record DeviceQueue =
  have_error :: bool
  pending_work :: nat

definition DeviceQueue_enqueue :: "bool \<Rightarrow> nat \<Rightarrow> DeviceQueue \<Rightarrow> bool \<times> DeviceQueue" where
  "DeviceQueue_enqueue kernel_ok work_size q =
     (if have_error q \<or> \<not> kernel_ok then (False, q\<lparr>have_error := True\<rparr>)
      else (True, q\<lparr>pending_work := pending_work q + work_size\<rparr>))"

definition DeviceQueue_synchronize :: "bool \<Rightarrow> DeviceQueue \<Rightarrow> bool \<times> DeviceQueue" where
  "DeviceQueue_synchronize kernels_ok q =
     (if have_error q \<or> \<not> kernels_ok then (False, q\<lparr>have_error := True\<rparr>)
      else (True, q\<lparr>pending_work := 0\<rparr>))"

datatype queue_call = Enqueue bool nat | Synchronize bool

fun do_call :: "queue_call \<Rightarrow> DeviceQueue \<Rightarrow> bool \<times> DeviceQueue" where
  "do_call (Enqueue kernel_ok work_size) q = DeviceQueue_enqueue kernel_ok work_size q"
| "do_call (Synchronize kernels_ok) q = DeviceQueue_synchronize kernels_ok q"

fun run_calls :: "queue_call list \<Rightarrow> DeviceQueue \<Rightarrow> DeviceQueue" where
  "run_calls [] q = q"
| "run_calls (c # cs) q = run_calls cs (snd (do_call c q))"

text \<open>The device reports an error during this call.\<close>

fun reports_failure :: "queue_call \<Rightarrow> bool" where
  "reports_failure (Enqueue kernel_ok work_size) = (\<not> kernel_ok)"
| "reports_failure (Synchronize kernels_ok) = (\<not> kernels_ok)"

fun is_synchronize :: "queue_call \<Rightarrow> bool" where
  "is_synchronize (Enqueue kernel_ok work_size) = False"
| "is_synchronize (Synchronize kernels_ok) = True"

section \<open>The resolution attribute of the curve component\<close>

text \<open>
  Modelled from the spec: the class \<^verbatim>\<open>Spline\<close> and the struct \<^verbatim>\<open>DCurve\<close>
  (\<^verbatim>\<open>BKE_derived_curve.hh\<close>) are not part of the source files, and the spec leaves curve data
  to an external collaborator. From the calls in the source, a spline has a resolution
  read by \<^verbatim>\<open>resolution()\<close> and stored by \<^verbatim>\<open>set_resolution()\<close>, a member \<^verbatim>\<open>is_cyclic\<close>,
  and an evaluation cache that \<^verbatim>\<open>mark_cache_invalid()\<close> marks invalid; a curve holds its
  splines in \<^verbatim>\<open>splines\<close>. The C++ \<^verbatim>\<open>int\<close> is an \<^typ>\<open>int\<close> here: the code below compares
  and stores it and does no arithmetic on it.
\<close>

record Spline =
  resolution_u :: int
  is_cyclic :: bool
  cache_dirty :: bool

record DCurve =
  splines :: "Spline list"

definition Spline_resolution :: "Spline \<Rightarrow> int" where
  "Spline_resolution spline = resolution_u spline"

definition Spline_set_resolution :: "int \<Rightarrow> Spline \<Rightarrow> Spline" where
  "Spline_set_resolution v spline = spline\<lparr>resolution_u := v\<rparr>"

definition Spline_mark_cache_invalid :: "Spline \<Rightarrow> Spline" where
  "Spline_mark_cache_invalid spline = spline\<lparr>cache_dirty := True\<rparr>"

text \<open>\<^verbatim>\<open>std::max(a, b)\<close>: \<^verbatim>\<open>(a < b) ? b : a\<close>.\<close>

definition std_max :: "int \<Rightarrow> int \<Rightarrow> int" where
  "std_max a b = (if a < b then b else a)"

definition get_spline_resolution :: "Spline \<Rightarrow> int" where
  "get_spline_resolution spline = Spline_resolution spline"

definition set_spline_resolution :: "Spline \<Rightarrow> int \<Rightarrow> Spline" where
  "set_spline_resolution spline resolution =
     Spline_mark_cache_invalid (Spline_set_resolution (std_max resolution 1) spline)"

text \<open>
  Modelled from the spec: the template \<^verbatim>\<open>DerivedArrayWriteAttribute\<close>
  (\<^verbatim>\<open>attribute_access_intern.hh\<close>) is not part of the source files. It is instantiated with
  an element getter and setter over a span; writing the element at an index calls the
  setter on that element of the span. An index outside the span has no result.
\<close>

definition DerivedArrayWriteAttribute_set :: "('s \<Rightarrow> 'v \<Rightarrow> 's) \<Rightarrow> 's list \<Rightarrow> nat \<Rightarrow> 'v \<Rightarrow> 's list option" where
  "DerivedArrayWriteAttribute_set set_function data index v =
     (if index < length data then Some (data[index := set_function (data ! index) v])
      else None)"

definition DerivedArrayWriteAttribute_get :: "('s \<Rightarrow> 'v) \<Rightarrow> 's list \<Rightarrow> nat \<Rightarrow> 'v option" where
  "DerivedArrayWriteAttribute_get get_function data index =
     (if index < length data then Some (get_function (data ! index)) else None)"

text \<open>
  \<^verbatim>\<open>make_resolution_write_attribute(curve)\<close>: the write attribute over
  \<^verbatim>\<open>curve.splines\<close> with \<^verbatim>\<open>get_spline_resolution\<close> and \<^verbatim>\<open>set_spline_resolution\<close>. Its two
  operations are a read and a write at an index.
\<close>

definition resolution_attribute_get :: "DCurve \<Rightarrow> nat \<Rightarrow> int option" where
  "resolution_attribute_get curve index =
     DerivedArrayWriteAttribute_get get_spline_resolution (splines curve) index"

definition resolution_attribute_set :: "DCurve \<Rightarrow> nat \<Rightarrow> int \<Rightarrow> DCurve option" where
  "resolution_attribute_set curve index v =
     map_option (\<lambda>data. curve\<lparr>splines := data\<rparr>)
       (DerivedArrayWriteAttribute_set set_spline_resolution (splines curve) index v)"

section \<open>Auxiliary definitions for the proofs\<close>

text \<open>A condition as a number: 1 if it holds, 0 otherwise.\<close>

definition ind :: "bool \<Rightarrow> nat" where
  "ind b = (if b then 1 else 0)"

text \<open>How many paths an invocation brings to life, and how many it ends.\<close>

fun created :: "invocation \<Rightarrow> nat" where
  "created (Create f k) = 1"
| "created (Continue c n) = 0"
| "created (Finish c) = 0"

fun finished :: "invocation \<Rightarrow> nat" where
  "finished (Create f k) = 0"
| "finished (Continue c n) = 0"
| "finished (Finish c) = 1"

subsection \<open>Concrete states used as examples\<close>

text \<open>A live main path queued on \<^verbatim>\<open>shade_surface\<close> (bit 4), counted once in that slot.\<close>

definition live_surface_env :: kernel_env where
  "live_surface_env =
     \<lparr>queue = zero_queue(INTEGRATOR_KERNEL_shade_surface := 1),
      state = \<lparr>path_flag = 1, path_queued_kernels = 16,
                shadow_path_flag = 0, shadow_path_queued_kernels = 0\<rparr>\<rparr>"

text \<open>
  A path a kernel has just marked alive and not yet queued: flag written, nothing queued,
  all counters zero.
\<close>

definition created_env :: kernel_env where
  "created_env =
     \<lparr>queue = zero_queue,
      state = \<lparr>path_flag = 1, path_queued_kernels = 0,
                shadow_path_flag = 0, shadow_path_queued_kernels = 0\<rparr>\<rparr>"

text \<open>The same path with its flag still set and nothing queued.\<close>

definition stranded_env :: kernel_env where
  "stranded_env =
     \<lparr>queue = zero_queue(INTEGRATOR_KERNEL_shade_surface := 1),
      state = \<lparr>path_flag = 1, path_queued_kernels = 0,
                shadow_path_flag = 0, shadow_path_queued_kernels = 0\<rparr>\<rparr>"

text \<open>The state a terminated path is left in when it was queued on one kernel.\<close>

definition drained_env :: kernel_env where
  "drained_env =
     \<lparr>queue = zero_queue,
      state = \<lparr>path_flag = 0, path_queued_kernels = 0,
                shadow_path_flag = 0, shadow_path_queued_kernels = 0\<rparr>\<rparr>"

text \<open>
  A path whose bitmask has the bits of two kernels, \<^verbatim>\<open>intersect_closest\<close> (bit 0) and
  \<^verbatim>\<open>intersect_shadow\<close> (bit 1).
\<close>

definition two_kernels_env :: kernel_env where
  "two_kernels_env =
     \<lparr>queue = zero_queue(INTEGRATOR_KERNEL_intersect_closest := 1,
                           INTEGRATOR_KERNEL_intersect_shadow := 1),
      state = \<lparr>path_flag = 1, path_queued_kernels = 3,
                shadow_path_flag = 0, shadow_path_queued_kernels = 0\<rparr>\<rparr>"

text \<open>
  Two path slots: both paths are created, the first moves on to shading, spawns a shadow
  path and terminates; the second is moved from \<^verbatim>\<open>intersect_closest\<close> to
  \<^verbatim>\<open>intersect_closest\<close>.
\<close>

definition example_run :: "(nat \<times> path_kind \<times> invocation) list" where
  "example_run =
     [(0, Main_Path, Create 1 INTEGRATOR_KERNEL_intersect_closest),
      (1, Main_Path, Create 1 INTEGRATOR_KERNEL_intersect_closest),
      (0, Main_Path, Continue INTEGRATOR_KERNEL_intersect_closest INTEGRATOR_KERNEL_shade_surface),
      (0, Shadow_Path, Create 1 INTEGRATOR_KERNEL_intersect_shadow),
      (0, Main_Path, Finish INTEGRATOR_KERNEL_shade_surface),
      (1, Main_Path, Continue INTEGRATOR_KERNEL_intersect_closest
                              INTEGRATOR_KERNEL_intersect_closest)]"

definition idle_queue :: DeviceQueue where
  "idle_queue = \<lparr>have_error = False, pending_work = 3\<rparr>"

definition example_curve :: DCurve where
  "example_curve =
     \<lparr>splines = [\<lparr>resolution_u = 12, is_cyclic = False, cache_dirty = False\<rparr>,
                 \<lparr>resolution_u = 4, is_cyclic = True, cache_dirty = False\<rparr>]\<rparr>"

section \<open>Properties of the bit arithmetic\<close>

lemmas macro_defs =
  INTEGRATOR_PATH_INIT_def INTEGRATOR_PATH_NEXT_def INTEGRATOR_PATH_TERMINATE_def
  INTEGRATOR_SHADOW_PATH_INIT_def INTEGRATOR_SHADOW_PATH_NEXT_def
  INTEGRATOR_SHADOW_PATH_TERMINATE_def
  atomic_fetch_and_add_uint32_def atomic_fetch_and_sub_uint32_def Let_def

lemmas host_defs =
  INTEGRATOR_PATH_INIT_host_def INTEGRATOR_PATH_NEXT_host_def INTEGRATOR_PATH_TERMINATE_host_def
  INTEGRATOR_SHADOW_PATH_INIT_host_def INTEGRATOR_SHADOW_PATH_NEXT_host_def
  INTEGRATOR_SHADOW_PATH_TERMINATE_host_def

lemma kernel_index_less: "kernel_index k < INTEGRATOR_KERNEL_NUM"
  by (cases k) (simp_all add: INTEGRATOR_KERNEL_NUM_def)

lemma kernel_index_less16 [simp]: "kernel_index k < 16"
  using kernel_index_less [of k] by (simp add: INTEGRATOR_KERNEL_NUM_def)

lemma kernel_index_inj: "kernel_index a = kernel_index b \<Longrightarrow> a = b"
  by (cases a; cases b) simp_all

lemma all_kernels_complete: "k \<in> set all_kernels"
  by (cases k) (simp_all add: all_kernels_def)

lemma kernel_bit_simps:
  "kernel_bit INTEGRATOR_KERNEL_intersect_closest = 1"
  "kernel_bit INTEGRATOR_KERNEL_intersect_shadow = 2"
  "kernel_bit INTEGRATOR_KERNEL_intersect_subsurface = 4"
  "kernel_bit INTEGRATOR_KERNEL_shade_background = 8"
  "kernel_bit INTEGRATOR_KERNEL_shade_surface = 16"
  "kernel_bit INTEGRATOR_KERNEL_shade_volume = 32"
  "kernel_bit INTEGRATOR_KERNEL_shade_shadow = 64"
  by (simp_all add: kernel_bit_def)

lemma bit_kernel_bit: "bit (kernel_bit k) i \<longleftrightarrow> i = kernel_index k"
proof -
  have "kernel_index k < 16" by simp
  then show ?thesis
    unfolding kernel_bit_def
    by (auto simp only: bit_push_bit_iff bit_1_iff possible_bit_word len_bit0 len_num1
        One_nat_def le_add_diff_inverse2 mult_2 diff_self_eq_0 split: if_splits)
qed

lemma kernel_bit_nonzero: "kernel_bit k \<noteq> 0"
  using bit_kernel_bit [of k "kernel_index k"] by auto

lemma kernel_bit_zero_iff: "(0 = kernel_bit k) = False" "(kernel_bit k = 0) = False"
  using kernel_bit_nonzero [of k] by auto

lemma kernel_bit_inj: "kernel_bit a = kernel_bit b \<longleftrightarrow> a = b"
  by (metis bit_kernel_bit kernel_index_inj)

lemma kernel_bit_member: "kernel_bit k \<in> kernel_bit ` set all_kernels"
  using all_kernels_complete by blast

lemma in_kernel_bits: "m \<in> set (map kernel_bit all_kernels) \<longleftrightarrow> (\<exists>k. m = kernel_bit k)"
  using all_kernels_complete by auto

lemma queued_on_iff: "queued_on m k \<longleftrightarrow> bit m (kernel_index k)"
proof
  assume "queued_on m k"
  then obtain i where "bit (m AND kernel_bit k) i"
    unfolding queued_on_def using bit_word_eqI [of "m AND kernel_bit k" 0] by auto
  then show "bit m (kernel_index k)"
    by (auto simp: bit_and_iff bit_kernel_bit)
next
  assume "bit m (kernel_index k)"
  then have "bit (m AND kernel_bit k) (kernel_index k)"
    by (simp add: bit_and_iff bit_kernel_bit)
  then show "queued_on m k"
    unfolding queued_on_def by auto
qed

lemma queued_on_kernel_bit: "queued_on (kernel_bit a) k \<longleftrightarrow> a = k"
  by (auto simp: queued_on_iff bit_kernel_bit dest: kernel_index_inj)

lemma queued_on_zero: "\<not> queued_on 0 k"
  by (simp add: queued_on_def)

lemma move_bit:
  "c \<noteq> n \<Longrightarrow> (kernel_bit c OR kernel_bit n) AND NOT (kernel_bit c) = kernel_bit n"
  by (rule bit_word_eqI)
    (auto simp: bit_and_iff bit_or_iff bit_not_iff bit_kernel_bit dest: kernel_index_inj)

lemma single_mask:
  assumes "m = 0 \<or> m \<in> set (map kernel_bit all_kernels)" and "queued_on m c"
  shows "m = kernel_bit c"
  using assms by (auto simp: in_kernel_bits queued_on_zero queued_on_kernel_bit)

section \<open>Effect of one transition on the path it is invoked for\<close>

lemma exec_gpu_mask:
  "queued_of w (state (exec_gpu w (INIT k) e)) = queued_of w (state e) OR kernel_bit k"
  "queued_of w (state (exec_gpu w (NEXT c n) e)) =
     (queued_of w (state e) OR kernel_bit n) AND NOT (kernel_bit c)"
  "queued_of w (state (exec_gpu w (TERMINATE c) e)) =
     queued_of w (state e) AND NOT (kernel_bit c)"
  by (cases w; simp add: macro_defs)+

lemma exec_gpu_flag:
  "flag_of w (state (exec_gpu w (INIT k) e)) = flag_of w (state e)"
  "flag_of w (state (exec_gpu w (NEXT c n) e)) = flag_of w (state e)"
  "flag_of w (state (exec_gpu w (TERMINATE c) e)) = 0"
  by (cases w; simp add: macro_defs)+

lemma exec_gpu_queue:
  "queue (exec_gpu w (INIT k) e) = (queue e)(k := queue e k + 1)"
  "queue (exec_gpu w (NEXT c n) e) =
     ((queue e)(c := queue e c - 1))(n := ((queue e)(c := queue e c - 1)) n + 1)"
  "queue (exec_gpu w (TERMINATE c) e) = (queue e)(c := queue e c - 1)"
  by (cases w; simp add: macro_defs)+

lemma exec_gpu_frame:
  "w' \<noteq> w \<Longrightarrow> queued_of w' (state (exec_gpu w t e)) = queued_of w' (state e)"
  "w' \<noteq> w \<Longrightarrow> flag_of w' (state (exec_gpu w t e)) = flag_of w' (state e)"
  by (cases w; cases w'; cases t; simp add: macro_defs)+

lemma write_flag_simps:
  "queue (write_flag w f e) = queue e"
  "flag_of w (state (write_flag w f e)) = f"
  "queued_of w' (state (write_flag w f e)) = queued_of w' (state e)"
  "w' \<noteq> w \<Longrightarrow> flag_of w' (state (write_flag w f e)) = flag_of w' (state e)"
  by (cases w; cases w'; simp)+

lemma sum_queued_upd: "sum_queued (q(k := v)) = sum_queued q - q k + v"
  by (cases k) (simp_all add: sum_queued_def all_kernels_def)

lemma path_inv_wellformed: "path_inv w s \<Longrightarrow> mask_wellformed (queued_of w s)"
  by (simp add: path_inv_def mask_inv_def mask_wellformed_def)

lemma transition_keeps_inv:
  assumes wf: "mask_wellformed (queued_of w (state e))"
    and ok: "transition_ok t (queued_of w (state e))"
  shows "path_inv w (state (exec_gpu w t e))
       \<and> queued_of w (state (exec_gpu w t e)) = waiting_mask t"
proof (cases t)
  case (INIT k)
  with ok have "queued_of w (state e) = 0" by simp
  then have "queued_of w (state (exec_gpu w t e)) = kernel_bit k"
    by (simp add: INIT exec_gpu_mask)
  then show ?thesis
    by (simp add: INIT path_inv_def mask_inv_def kernel_bit_member kernel_bit_nonzero
        del: exec_gpu.simps)
next
  case (NEXT c n)
  with ok have q: "queued_on (queued_of w (state e)) c" and ne: "c \<noteq> n" by simp_all
  from wf q have "queued_of w (state e) = kernel_bit c"
    unfolding mask_wellformed_def by (blast intro: single_mask)
  then have "queued_of w (state (exec_gpu w t e)) = kernel_bit n"
    using ne by (simp add: NEXT exec_gpu_mask move_bit)
  then show ?thesis
    by (simp add: NEXT path_inv_def mask_inv_def kernel_bit_member kernel_bit_nonzero
        del: exec_gpu.simps)
next
  case (TERMINATE c)
  with ok have q: "queued_on (queued_of w (state e)) c" by simp
  from wf q have "queued_of w (state e) = kernel_bit c"
    unfolding mask_wellformed_def by (blast intro: single_mask)
  then have "queued_of w (state (exec_gpu w t e)) = 0"
    by (simp add: TERMINATE exec_gpu_mask)
  then show ?thesis
    by (simp add: TERMINATE path_inv_def mask_inv_def exec_gpu_flag del: exec_gpu.simps)
qed

section \<open>Host and device variants\<close>

lemma run_host_unchanged:
  "queue (run_host ts e) = queue e
   \<and> path_queued_kernels (state (run_host ts e)) = path_queued_kernels (state e)
   \<and> shadow_path_queued_kernels (state (run_host ts e)) = shadow_path_queued_kernels (state e)"
proof (induction ts arbitrary: e)
  case Nil
  then show ?case by simp
next
  case (Cons a ts)
  obtain w t where a: "a = (w, t)" by (cases a)
  have "queue (exec_host w t e) = queue e
    \<and> path_queued_kernels (state (exec_host w t e)) = path_queued_kernels (state e)
    \<and> shadow_path_queued_kernels (state (exec_host w t e)) = shadow_path_queued_kernels (state e)"
    by (cases w; cases t) (simp_all add: host_defs)
  with Cons.IH [of "exec_host w t e"] show ?case by (simp add: a)
qed

lemma exec_flags_agree:
  assumes "path_flag (state e) = path_flag (state e')"
    and "shadow_path_flag (state e) = shadow_path_flag (state e')"
  shows "path_flag (state (exec_gpu w t e)) = path_flag (state (exec_host w t e'))
     \<and> shadow_path_flag (state (exec_gpu w t e)) = shadow_path_flag (state (exec_host w t e'))"
  using assms by (cases w; cases t) (simp_all add: macro_defs host_defs)

lemma run_flags_agree:
  assumes "path_flag (state e) = path_flag (state e')"
    and "shadow_path_flag (state e) = shadow_path_flag (state e')"
  shows "path_flag (state (run_gpu ts e)) = path_flag (state (run_host ts e'))
     \<and> shadow_path_flag (state (run_gpu ts e)) = shadow_path_flag (state (run_host ts e'))"
  using assms
proof (induction ts arbitrary: e e')
  case Nil
  then show ?case by simp
next
  case (Cons a ts)
  obtain w t where a: "a = (w, t)" by (cases a)
  from exec_flags_agree [OF Cons.prems, of w t]
  show ?case unfolding a run_gpu.simps run_host.simps
    by (intro Cons.IH) simp_all
qed

section \<open>Counting the paths of a batch\<close>

lemma sint_small: "sint x = int (unat x)" if "unat x < 2 ^ 31" for x :: u32
proof -
  have nn: "0 \<le> uint x" by simp
  from that have "int (unat x) < 2 ^ 31" by (metis of_nat_less_iff of_nat_numeral of_nat_power)
  then have lt: "uint x < 2 ^ 31" by simp
  have "signed_take_bit 31 (uint x) = uint x"
  proof (rule signed_take_bit_int_eq_self)
    show "- (2 ^ 31) \<le> uint x" by (rule order_trans [OF _ nn]) simp
    show "uint x < 2 ^ 31" by (rule lt)
  qed
  then show ?thesis by (simp add: sint_uint)
qed

lemma unat_inc: "unat x + 1 < 2 ^ 32 \<Longrightarrow> unat (x + 1) = unat x + 1" for x :: u32
  using unat_add_lem [of x 1] by simp

lemma unat_dec: "1 \<le> unat x \<Longrightarrow> unat (x - 1) = unat x - 1" for x :: u32
  using unat_minus_one [of x] unat_gt_0 [of x] by simp

lemma sum_unat_upd:
  "sum_list (map (\<lambda>j. unat ((q(k := x)) j)) all_kernels) + unat (q k)
   = sum_list (map (\<lambda>j. unat (q j)) all_kernels) + unat x" for q :: IntegratorPathQueue
  by (cases k) (simp_all add: all_kernels_def)

lemma member_le_sum:
  "unat (q k) \<le> sum_list (map (\<lambda>j. unat (q j)) all_kernels)" for q :: IntegratorPathQueue
  by (cases k) (simp_all add: all_kernels_def)

lemma sum_queued_unat:
  "sum_queued q = of_nat (sum_list (map (\<lambda>j. unat (q j)) all_kernels))"
  by (simp add: sum_queued_def all_kernels_def)

lemma ind_simps [simp]: "ind True = 1" "ind False = 0"
  by (simp_all add: ind_def)

lemma count_update:
  "i < length xs \<Longrightarrow>
     length (filter P (xs[i := y])) + ind (P (xs ! i)) = length (filter P xs) + ind (P y)"
proof (induction xs arbitrary: i)
  case Nil
  then show ?case by simp
next
  case (Cons x xs)
  show ?case
  proof (cases i)
    case 0
    then show ?thesis by (simp add: ind_def)
  next
    case (Suc j)
    with Cons.prems have "j < length xs" by simp
    from Cons.IH [OF this] show ?thesis by (simp add: Suc)
  qed
qed

lemma live_count_le: "live_count ps \<le> 2 * length ps"
proof -
  have "length (filter (\<lambda>s. path_flag s \<noteq> 0) ps) \<le> length ps"
    and "length (filter (\<lambda>s. shadow_path_flag s \<noteq> 0) ps) \<le> length ps"
    by simp_all
  then show ?thesis unfolding live_count_def by linarith
qed

lemma slot_inv_queued:
  assumes "slot_inv f m" and "queued_on m c"
  shows "m = kernel_bit c" and "f \<noteq> 0"
proof -
  from assms(2) have "m \<noteq> 0" using queued_on_zero by auto
  with assms(1) have f: "f \<noteq> 0" and "m \<in> set (map kernel_bit all_kernels)"
    by (auto simp: slot_inv_def)
  with assms(2) show "m = kernel_bit c" by (blast intro: single_mask)
  show "f \<noteq> 0" by (rule f)
qed

lemma invoke_frame:
  assumes "w' \<noteq> w"
  shows "queued_of w' (state (invoke w v \<lparr>queue = q, state = s\<rparr>)) = queued_of w' s"
    and "flag_of w' (state (invoke w v \<lparr>queue = q, state = s\<rparr>)) = flag_of w' s"
  using assms by (cases v; simp add: exec_gpu_frame write_flag_simps del: exec_gpu.simps)+

lemma count_on_update:
  assumes "i < length ps" and "\<And>w'. w' \<noteq> w \<Longrightarrow> queued_of w' s' = queued_of w' (ps ! i)"
  shows "count_on k (ps[i := s']) + ind (queued_of w (ps ! i) = kernel_bit k)
       = count_on k ps + ind (queued_of w s' = kernel_bit k)"
proof -
  note a = count_update [OF assms(1), of "\<lambda>s. path_queued_kernels s = kernel_bit k" s']
  note b = count_update [OF assms(1), of "\<lambda>s. shadow_path_queued_kernels s = kernel_bit k" s']
  show ?thesis
  proof (cases w)
    case Main_Path
    with assms(2) [of Shadow_Path]
    have "shadow_path_queued_kernels s' = shadow_path_queued_kernels (ps ! i)" by simp
    with a b show ?thesis by (simp add: count_on_def Main_Path)
  next
    case Shadow_Path
    with assms(2) [of Main_Path]
    have "path_queued_kernels s' = path_queued_kernels (ps ! i)" by simp
    with a b show ?thesis by (simp add: count_on_def Shadow_Path)
  qed
qed

lemma live_count_update:
  assumes "i < length ps" and "\<And>w'. w' \<noteq> w \<Longrightarrow> flag_of w' s' = flag_of w' (ps ! i)"
  shows "live_count (ps[i := s']) + ind (flag_of w (ps ! i) \<noteq> 0)
       = live_count ps + ind (flag_of w s' \<noteq> 0)"
proof -
  note a = count_update [OF assms(1), of "\<lambda>s. path_flag s \<noteq> 0" s']
  note b = count_update [OF assms(1), of "\<lambda>s. shadow_path_flag s \<noteq> 0" s']
  show ?thesis
  proof (cases w)
    case Main_Path
    with assms(2) [of Shadow_Path]
    have "shadow_path_flag s' = shadow_path_flag (ps ! i)" by simp
    with a b show ?thesis by (simp add: live_count_def Main_Path)
  next
    case Shadow_Path
    with assms(2) [of Main_Path]
    have "path_flag s' = path_flag (ps ! i)" by simp
    with a b show ?thesis by (simp add: live_count_def Shadow_Path)
  qed
qed

lemma state_inv_slots: "state_inv s \<longleftrightarrow> (\<forall>w. slot_inv (flag_of w s) (queued_of w s))"
proof -
  have "(\<forall>w. slot_inv (flag_of w s) (queued_of w s)) \<longleftrightarrow>
        slot_inv (flag_of Main_Path s) (queued_of Main_Path s)
      \<and> slot_inv (flag_of Shadow_Path s) (queued_of Shadow_Path s)"
    by (metis path_kind.exhaust)
  then show ?thesis by (simp add: state_inv_def)
qed

text \<open>What a protocol-conforming invocation does to the slot and to the counters.\<close>

lemma invoke_cases:
  assumes inv: "slot_inv (flag_of w s) (queued_of w s)" and ok: "invocation_ok v w s"
  shows "(case v of
      Create f k \<Rightarrow>
        flag_of w s = 0 \<and> queued_of w s = 0
        \<and> flag_of w (state (invoke w v \<lparr>queue = q, state = s\<rparr>)) \<noteq> 0
        \<and> queued_of w (state (invoke w v \<lparr>queue = q, state = s\<rparr>)) = kernel_bit k
        \<and> queue (invoke w v \<lparr>queue = q, state = s\<rparr>) = q(k := q k + 1)
    | Continue c n \<Rightarrow>
        flag_of w s \<noteq> 0 \<and> queued_of w s = kernel_bit c
        \<and> flag_of w (state (invoke w v \<lparr>queue = q, state = s\<rparr>)) \<noteq> 0
        \<and> queued_of w (state (invoke w v \<lparr>queue = q, state = s\<rparr>))
            = (if c = n then 0 else kernel_bit n)
        \<and> queue (invoke w v \<lparr>queue = q, state = s\<rparr>)
            = (if c = n then q else (q(c := q c - 1))(n := q n + 1))
    | Finish c \<Rightarrow>
        flag_of w s \<noteq> 0 \<and> queued_of w s = kernel_bit c
        \<and> flag_of w (state (invoke w v \<lparr>queue = q, state = s\<rparr>)) = 0
        \<and> queued_of w (state (invoke w v \<lparr>queue = q, state = s\<rparr>)) = 0
        \<and> queue (invoke w v \<lparr>queue = q, state = s\<rparr>) = q(c := q c - 1))"
proof (cases v)
  case (Create f k)
  with ok show ?thesis
    by (simp add: exec_gpu_mask exec_gpu_flag exec_gpu_queue write_flag_simps
        del: exec_gpu.simps)
next
  case (Continue c n)
  with ok have qo: "queued_on (queued_of w s) c" by simp
  from slot_inv_queued [OF inv qo]
  have m: "queued_of w s = kernel_bit c" and fl: "flag_of w s \<noteq> 0" .
  have mv: "(kernel_bit c OR kernel_bit n) AND NOT (kernel_bit c)
      = (if c = n then 0 else kernel_bit n)"
    by (simp add: move_bit)
  show ?thesis
    using fl by (auto simp: Continue m mv exec_gpu_mask exec_gpu_flag exec_gpu_queue
        simp del: exec_gpu.simps)
next
  case (Finish c)
  with ok have qo: "queued_on (queued_of w s) c" by simp
  from slot_inv_queued [OF inv qo]
  have m: "queued_of w s = kernel_bit c" and fl: "flag_of w s \<noteq> 0" .
  show ?thesis
    using fl by (simp add: Finish m exec_gpu_mask exec_gpu_flag exec_gpu_queue
        del: exec_gpu.simps)
qed

lemma batch_step_inv:
  assumes inv: "batch_inv b" and step: "batch_step i w v b = Some b'"
    and bound: "2 * length (paths b) < 2 ^ 32"
  shows "batch_inv b'"
    and "length (paths b') = length (paths b)"
    and "live_count (paths b') + finished v = live_count (paths b) + created v"
proof -
  let ?s = "paths b ! i"
  let ?q = "counters b"
  let ?e' = "invoke w v \<lparr>queue = ?q, state = ?s\<rparr>"
  let ?ps' = "(paths b)[i := state ?e']"
  let ?S = "\<lambda>q. sum_list (map (\<lambda>j. unat (q j)) all_kernels)"
  from step have i: "i < length (paths b)" and ok: "invocation_ok v w ?s"
    and b': "b' = \<lparr>counters = queue ?e', paths = ?ps'\<rparr>"
    by (simp_all add: batch_step_def Let_def split: if_splits)
  from inv have all: "list_all state_inv (paths b)"
    and le: "\<And>k. count_on k (paths b) \<le> unat (?q k)"
    and sum: "?S ?q = live_count (paths b)"
    using all_kernels_complete by (auto simp: batch_inv_def list_all_iff)
  from all i have s: "state_inv ?s" by (simp add: list_all_length)
  then have slot: "slot_inv (flag_of w ?s) (queued_of w ?s)" by (simp add: state_inv_slots)
  note cases = invoke_cases [OF slot ok, of ?q]
  note fr = invoke_frame [of _ w v ?q ?s]
  have cu: "count_on k ?ps' + ind (queued_of w ?s = kernel_bit k)
        = count_on k (paths b) + ind (queued_of w (state ?e') = kernel_bit k)" for k
    using count_on_update [OF i, of w "state ?e'" k] fr(1) by simp
  have lu: "live_count ?ps' + ind (flag_of w ?s \<noteq> 0)
        = live_count (paths b) + ind (flag_of w (state ?e') \<noteq> 0)"
    using live_count_update [OF i, of w "state ?e'"] fr(2) by simp
  have lim: "live_count ?ps' < 2 ^ 32"
    using live_count_le [of ?ps'] bound by simp
  have mem: "unat (q k) \<le> ?S q" for q :: IntegratorPathQueue and k
    by (rule member_le_sum)
  have slot': "slot_inv (flag_of w (state ?e')) (queued_of w (state ?e'))"
    using cases by (cases v) (auto simp: slot_inv_def kernel_bit_member)
  have s': "state_inv (state ?e')"
    unfolding state_inv_slots
  proof
    fix w'
    show "slot_inv (flag_of w' (state ?e')) (queued_of w' (state ?e'))"
    proof (cases "w' = w")
      case True
      then show ?thesis using slot' by simp
    next
      case False
      with fr s show ?thesis by (simp add: state_inv_slots)
    qed
  qed
  have all': "list_all state_inv ?ps'"
    using all s' by (auto simp: list_all_iff dest!: set_update_subset_insert [THEN subsetD])
  have live: "live_count ?ps' + finished v = live_count (paths b) + created v"
    using lu cases by (cases v) (auto split: if_splits)
  have cnt: "(\<forall>k. count_on k ?ps' \<le> unat (queue ?e' k)) \<and> ?S (queue ?e') = live_count ?ps'"
  proof (cases v)
    case (Create f k0)
    with cases have m: "queued_of w ?s = 0" and m': "queued_of w (state ?e') = kernel_bit k0"
      and q': "queue ?e' = ?q(k0 := ?q k0 + 1)" by simp_all
    from live Create have l': "live_count ?ps' = live_count (paths b) + 1" by simp
    have "unat (?q k0) + 1 < 2 ^ 32"
      using mem [of ?q k0] sum l' lim by simp
    then have u: "unat (?q k0 + 1) = unat (?q k0) + 1" by (rule unat_inc)
    have c: "count_on k ?ps' = count_on k (paths b) + ind (k0 = k)" for k
      using cu [of k] by (simp add: m m' kernel_bit_inj kernel_bit_zero_iff)
    have "count_on k ?ps' \<le> unat (queue ?e' k)" for k
      using le [of k] by (auto simp: c q' u)
    moreover have "?S (queue ?e') = live_count ?ps'"
      using sum_unat_upd [of ?q k0 "?q k0 + 1"] sum by (simp add: q' u l')
    ultimately show ?thesis by blast
  next
    case (Continue c n)
    with cases have m: "queued_of w ?s = kernel_bit c"
      and m': "queued_of w (state ?e') = (if c = n then 0 else kernel_bit n)"
      and q': "queue ?e' = (if c = n then ?q else (?q(c := ?q c - 1))(n := ?q n + 1))"
      by simp_all
    from live Continue have l': "live_count ?ps' = live_count (paths b)" by simp
    show ?thesis
    proof (cases "c = n")
      case True
      have "count_on k ?ps' \<le> count_on k (paths b)" for k
        using cu [of k] by (simp add: m m' True ind_def kernel_bit_zero_iff split: if_splits)
      then have "count_on k ?ps' \<le> unat (queue ?e' k)" for k
        using le [of k] by (simp add: q' True) (meson order_trans)
      then show ?thesis using sum by (simp add: q' True l')
    next
      case False
      have cc: "count_on c ?ps' + 1 = count_on c (paths b)"
        using cu [of c] False by (simp add: m m' kernel_bit_inj)
      then have c1: "1 \<le> unat (?q c)" using le [of c] by linarith
      then have uc: "unat (?q c - 1) = unat (?q c) - 1" by (rule unat_dec)
      let ?q1 = "?q(c := ?q c - 1)"
      have s1: "?S ?q1 + 1 = ?S ?q"
        using sum_unat_upd [of ?q c "?q c - 1"] c1 by (simp add: uc)
      have "unat (?q n) \<le> ?S ?q1" using mem [of ?q1 n] False by simp
      then have "unat (?q n) + 1 < 2 ^ 32"
        using s1 sum l' lim by simp
      then have un: "unat (?q n + 1) = unat (?q n) + 1" by (rule unat_inc)
      have cn: "count_on n ?ps' = count_on n (paths b) + 1"
        using cu [of n] False by (simp add: m m' kernel_bit_inj)
      have co: "count_on k ?ps' = count_on k (paths b)" if "k \<noteq> c" "k \<noteq> n" for k
        using cu [of k] False that by (simp add: m m' kernel_bit_inj)
      have "count_on k ?ps' \<le> unat (queue ?e' k)" for k
        using le [of k] cc cn co [of k] False by (auto simp: q' uc un)
      moreover have "?S (queue ?e') = live_count ?ps'"
        using sum_unat_upd [of ?q1 n "?q n + 1"] s1 sum False by (simp add: q' un l')
      ultimately show ?thesis by blast
    qed
  next
    case (Finish c)
    with cases have m: "queued_of w ?s = kernel_bit c" and m': "queued_of w (state ?e') = 0"
      and q': "queue ?e' = ?q(c := ?q c - 1)" by simp_all
    from live Finish have l': "live_count ?ps' + 1 = live_count (paths b)" by simp
    have cc: "count_on c ?ps' + 1 = count_on c (paths b)"
      using cu [of c] by (simp add: m m' kernel_bit_zero_iff)
    then have c1: "1 \<le> unat (?q c)" using le [of c] by linarith
    then have uc: "unat (?q c - 1) = unat (?q c) - 1" by (rule unat_dec)
    have co: "count_on k ?ps' = count_on k (paths b)" if "k \<noteq> c" for k
      using cu [of k] that by (simp add: m m' kernel_bit_inj kernel_bit_zero_iff)
    have "count_on k ?ps' \<le> unat (queue ?e' k)" for k
      using le [of k] cc co [of k] by (auto simp: q' uc)
    moreover have "?S (queue ?e') = live_count ?ps'"
      using sum_unat_upd [of ?q c "?q c - 1"] c1 sum l' by (simp add: q' uc)
    ultimately show ?thesis by blast
  qed
  show "batch_inv b'"
    unfolding batch_inv_def b' using all' cnt by (simp add: list_all_iff)
  show "length (paths b') = length (paths b)" by (simp add: b')
  show "live_count (paths b') + finished v = live_count (paths b) + created v"
    using live by (simp add: b')
qed

lemma batch_inv_new: "batch_inv (new_batch n)"
  by (simp add: batch_inv_def new_batch_def list_all_iff state_inv_def slot_inv_def
      fresh_state_def count_on_def live_count_def zero_queue_def kernel_bit_zero_iff
      all_kernels_def)

lemma batch_run_inv:
  assumes "batch_inv b" and "batch_run vs b = Some b'"
    and "2 * length (paths b) < 2 ^ 32"
  shows "batch_inv b' \<and> length (paths b') = length (paths b)"
  using assms
proof (induction vs arbitrary: b)
  case Nil
  then show ?case by simp
next
  case (Cons a vs)
  obtain i w v where a: "a = (i, w, v)" by (cases a)
  from Cons.prems(2) obtain b1 where st: "batch_step i w v b = Some b1"
    and run: "batch_run vs b1 = Some b'"
    by (auto simp: a split: option.splits)
  note s = batch_step_inv(1,2) [OF Cons.prems(1) st Cons.prems(3)]
  from s(2) Cons.prems(3) have "2 * length (paths b1) < 2 ^ 32" by simp
  from Cons.IH [OF s(1) run this] s(2) show ?case by simp
qed

lemma sum_num_queued_unat:
  assumes "\<And>k. unat (q k) < 2 ^ 31"
  shows "sum_num_queued q = int (sum_list (map (\<lambda>j. unat (q j)) all_kernels))"
  by (simp add: sum_num_queued_def all_kernels_def sint_small [OF assms])

lemma batch_inv_drained:
  assumes inv: "batch_inv b" and bound: "2 * length (paths b) < 2 ^ 31"
  shows "sum_num_queued (counters b) = int (live_count (paths b))"
    and "unat (sum_queued (counters b)) = live_count (paths b)"
    and "\<forall>k. 0 \<le> sint (counters b k)"
    and "(\<forall>k. counters b k = 0) \<longleftrightarrow> live_count (paths b) = 0"
proof -
  have lt: "live_count (paths b) < 2 ^ 31"
    using live_count_le [of "paths b"] bound by linarith
  from inv have sum: "sum_list (map (\<lambda>j. unat (counters b j)) all_kernels)
      = live_count (paths b)"
    by (simp add: batch_inv_def)
  have small: "unat (counters b k) < 2 ^ 31" for k
    using member_le_sum [of "counters b" k] sum lt by linarith
  show "sum_num_queued (counters b) = int (live_count (paths b))"
    using sum_num_queued_unat [of "counters b", OF small] sum by simp
  have "live_count (paths b) < 2 ^ 32" using lt by simp
  then show u: "unat (sum_queued (counters b)) = live_count (paths b)"
    by (intro of_nat_inverse) (simp_all add: sum_queued_unat sum)
  show "\<forall>k. 0 \<le> sint (counters b k)"
    by (simp add: sint_small [OF small])
  show "(\<forall>k. counters b k = 0) \<longleftrightarrow> live_count (paths b) = 0"
  proof
    assume "\<forall>k. counters b k = 0"
    then have "sum_list (map (\<lambda>j. unat (counters b j)) all_kernels) = 0"
      by (simp add: all_kernels_def)
    with sum show "live_count (paths b) = 0" by simp
  next
    assume "live_count (paths b) = 0"
    with sum have "unat (counters b k) = 0" for k
      using all_kernels_complete [of k] by (simp add: sum_list_eq_0_iff)
    then show "\<forall>k. counters b k = 0" by (simp add: unat_eq_0)
  qed
qed

lemma new_batch_2:
  "new_batch 2 = \<lparr>counters = zero_queue, paths = [fresh_state, fresh_state]\<rparr>"
  by (simp add: new_batch_def numeral_2_eq_2)

lemma example_run_result:
  "batch_run example_run (new_batch 2) = Some (the (batch_run example_run (new_batch 2)))"
  by (simp add: example_run_def new_batch_2 batch_step_def fresh_state_def
      queued_on_def kernel_bit_simps macro_defs)

lemma example_run_live:
  "live_count (paths (the (batch_run example_run (new_batch 2)))) = 2"
  by (simp add: example_run_def new_batch_2 batch_step_def fresh_state_def
      queued_on_def kernel_bit_simps macro_defs live_count_def)

lemma example_last_step:
  "batch_step 0 Shadow_Path (Finish INTEGRATOR_KERNEL_intersect_shadow)
     (the (batch_run example_run (new_batch 2)))
   = Some (the (batch_step 0 Shadow_Path (Finish INTEGRATOR_KERNEL_intersect_shadow)
        (the (batch_run example_run (new_batch 2)))))"
  by (simp add: example_run_def new_batch_2 batch_step_def fresh_state_def
      queued_on_def kernel_bit_simps macro_defs)

section \<open>The device queue keeps its error\<close>

lemma run_calls_error: "have_error q \<Longrightarrow> have_error (run_calls cs q)"
proof (induction cs arbitrary: q)
  case Nil
  then show ?case by simp
next
  case (Cons c cs)
  have "have_error (snd (do_call c q))"
    using Cons.prems
    by (cases c) (simp_all add: DeviceQueue_enqueue_def DeviceQueue_synchronize_def)
  then show ?case by (simp add: Cons.IH)
qed

lemma do_call_failure: "reports_failure c \<Longrightarrow> have_error (snd (do_call c q))"
  by (cases c) (simp_all add: DeviceQueue_enqueue_def DeviceQueue_synchronize_def)

lemma run_calls_failure:
  "\<exists>c \<in> set cs. reports_failure c \<Longrightarrow> have_error (run_calls cs q)"
proof (induction cs arbitrary: q)
  case Nil
  then show ?case by simp
next
  case (Cons c cs)
  show ?case
  proof (cases "reports_failure c")
    case True
    then show ?thesis by (simp add: do_call_failure run_calls_error)
  next
    case False
    with Cons.prems have "\<exists>c \<in> set cs. reports_failure c" by simp
    then show ?thesis by (simp add: Cons.IH)
  qed
qed

section \<open>The claims\<close>

text \<open>
  C1 (amended). Under the protocol in which INIT is invoked for a path with nothing
  queued (whatever its flag), NEXT and TERMINATE name as current kernel a kernel the path
  is queued on, and NEXT names two different kernels, the bitmask invariant holds along
  every run of INIT, NEXT and TERMINATE steps that starts with a bitmask that is empty or
  the bit of one kernel: after every step the mask is empty or the bit of one kernel, a
  live path never has the empty mask, the mask is exactly the bit of the kernel the step
  queued the path on, and exactly zero after TERMINATE.
\<close>

theorem path_bitmask_invariant:
  assumes "mask_wellformed (queued_of w (state e))"
    and "path_run transition_ok w ts e = Some e'"
  shows "mask_wellformed (queued_of w (state e'))
       \<and> (path_inv w (state e) \<longrightarrow> path_inv w (state e'))
       \<and> (ts \<noteq> [] \<longrightarrow>
            path_inv w (state e') \<and> queued_of w (state e') = waiting_mask (last ts))"
  using assms
proof (induction ts arbitrary: e)
  case Nil
  then show ?case by simp
next
  case (Cons t ts)
  from Cons.prems(2) have ok: "transition_ok t (queued_of w (state e))"
    and run: "path_run transition_ok w ts (exec_gpu w t e) = Some e'"
    by (simp_all split: if_splits)
  from transition_keeps_inv [OF Cons.prems(1) ok]
  have inv1: "path_inv w (state (exec_gpu w t e))"
    and m: "queued_of w (state (exec_gpu w t e)) = waiting_mask t" by simp_all
  from inv1 have wf1: "mask_wellformed (queued_of w (state (exec_gpu w t e)))"
    by (rule path_inv_wellformed)
  from Cons.IH [OF wf1 run] inv1
  have wf': "mask_wellformed (queued_of w (state e'))"
    and inv': "path_inv w (state e')"
    and l: "ts \<noteq> [] \<longrightarrow> queued_of w (state e') = waiting_mask (last ts)"
    by simp_all
  have "ts = [] \<Longrightarrow> e' = exec_gpu w t e" using run by simp
  with wf' inv' l m show ?case by auto
qed

text \<open>
  C1, an instance: a path whose flag has just been set and that has nothing queued is
  queued on \<^verbatim>\<open>shade_surface\<close> by INIT and is then a live path with exactly that bit;
  a run that goes on to \<^verbatim>\<open>intersect_closest\<close> and terminates there ends with the empty
  mask.
\<close>

theorem path_bitmask_invariant_witness:
  "mask_wellformed (queued_of Main_Path (state created_env))
   \<and> path_flag (state created_env) \<noteq> 0
   \<and> path_run transition_ok Main_Path [INIT INTEGRATOR_KERNEL_shade_surface] created_env
       = Some live_surface_env
   \<and> path_flag (state live_surface_env) \<noteq> 0
   \<and> path_inv Main_Path (state live_surface_env)
   \<and> queued_of Main_Path (state live_surface_env) = kernel_bit INTEGRATOR_KERNEL_shade_surface
   \<and> path_run transition_ok Main_Path
        [INIT INTEGRATOR_KERNEL_shade_surface,
         NEXT INTEGRATOR_KERNEL_shade_surface INTEGRATOR_KERNEL_intersect_closest,
         TERMINATE INTEGRATOR_KERNEL_intersect_closest] created_env = Some drained_env
   \<and> path_inv Main_Path (state drained_env)
   \<and> queued_of Main_Path (state drained_env) = 0"
proof -
  have h1: "mask_wellformed (queued_of Main_Path (state created_env))"
    by (simp add: created_env_def mask_wellformed_def)
  have f0: "path_flag (state created_env) \<noteq> 0" by (simp add: created_env_def)
  have f1: "path_flag (state live_surface_env) \<noteq> 0" by (simp add: live_surface_env_def)
  have h2: "path_run transition_ok Main_Path [INIT INTEGRATOR_KERNEL_shade_surface]
        created_env = Some live_surface_env"
    by (simp add: created_env_def live_surface_env_def kernel_bit_simps macro_defs
        zero_queue_def fun_eq_iff)
  have h3: "path_run transition_ok Main_Path
        [INIT INTEGRATOR_KERNEL_shade_surface,
         NEXT INTEGRATOR_KERNEL_shade_surface INTEGRATOR_KERNEL_intersect_closest,
         TERMINATE INTEGRATOR_KERNEL_intersect_closest] created_env = Some drained_env"
    by (simp add: created_env_def drained_env_def queued_on_def kernel_bit_simps
        macro_defs zero_queue_def fun_eq_iff)
  from path_bitmask_invariant [OF h1 h2] path_bitmask_invariant [OF h1 h3] h1 h2 h3 f0 f1
  show ?thesis by simp
qed

text \<open>
  C1 as stated, with no more than "each step names the kernel the path is queued on" as
  precondition, fails: a live path queued on \<^verbatim>\<open>shade_surface\<close> satisfies the invariant,
  \<^verbatim>\<open>INTEGRATOR_PATH_NEXT(shade_surface, shade_surface)\<close> names the kernel it is queued on,
  and the step leaves the flag set and the mask empty.
\<close>

theorem path_bitmask_invariant_counterexample:
  "path_inv Main_Path (state live_surface_env)
   \<and> path_run names_queued_kernel Main_Path
        [NEXT INTEGRATOR_KERNEL_shade_surface INTEGRATOR_KERNEL_shade_surface]
        live_surface_env = Some stranded_env
   \<and> path_flag (state stranded_env) \<noteq> 0
   \<and> path_queued_kernels (state stranded_env) = 0
   \<and> \<not> path_inv Main_Path (state stranded_env)"
  by (simp add: live_surface_env_def stranded_env_def path_inv_def mask_inv_def
      all_kernels_def kernel_bit_simps queued_on_def macro_defs)

text \<open>
  C2 (amended). \<^verbatim>\<open>INTEGRATOR_PATH_TERMINATE(current_kernel)\<close>, applied to any path state,
  decrements the counter of \<^verbatim>\<open>current_kernel\<close> by one, clears the bit of
  \<^verbatim>\<open>current_kernel\<close> in the path's bitmask and leaves every other bit as it was, so that
  the resulting mask is zero when that bit was the only one set, and clears the liveness
  flag, so that \<^verbatim>\<open>INTEGRATOR_PATH_IS_TERMINATED\<close> then holds.
\<close>

theorem terminate_effect:
  "queue (INTEGRATOR_PATH_TERMINATE c e) = (queue e)(c := queue e c - 1)
   \<and> path_queued_kernels (state (INTEGRATOR_PATH_TERMINATE c e)) =
       path_queued_kernels (state e) AND NOT (kernel_bit c)
   \<and> \<not> queued_on (path_queued_kernels (state (INTEGRATOR_PATH_TERMINATE c e))) c
   \<and> (path_queued_kernels (state e) = kernel_bit c \<longrightarrow>
        path_queued_kernels (state (INTEGRATOR_PATH_TERMINATE c e)) = 0)
   \<and> path_flag (state (INTEGRATOR_PATH_TERMINATE c e)) = 0
   \<and> INTEGRATOR_PATH_IS_TERMINATED (INTEGRATOR_PATH_TERMINATE c e)"
  by (simp add: macro_defs INTEGRATOR_PATH_IS_TERMINATED_def queued_on_iff bit_and_iff
      bit_not_iff bit_kernel_bit)

text \<open>C2, an instance: terminating the live path queued on \<^verbatim>\<open>shade_surface\<close> only.\<close>

theorem terminate_effect_witness:
  "path_queued_kernels (state live_surface_env) = kernel_bit INTEGRATOR_KERNEL_shade_surface
   \<and> path_queued_kernels
       (state (INTEGRATOR_PATH_TERMINATE INTEGRATOR_KERNEL_shade_surface live_surface_env)) = 0
   \<and> queue (INTEGRATOR_PATH_TERMINATE INTEGRATOR_KERNEL_shade_surface live_surface_env)
       INTEGRATOR_KERNEL_shade_surface = 0
   \<and> INTEGRATOR_PATH_IS_TERMINATED
       (INTEGRATOR_PATH_TERMINATE INTEGRATOR_KERNEL_shade_surface live_surface_env)"
proof -
  have h: "path_queued_kernels (state live_surface_env)
         = kernel_bit INTEGRATOR_KERNEL_shade_surface"
    by (simp add: live_surface_env_def kernel_bit_simps)
  from terminate_effect [of INTEGRATOR_KERNEL_shade_surface live_surface_env] h
  show ?thesis by (simp add: live_surface_env_def)
qed

text \<open>
  C2 as stated fails: with the bits of \<^verbatim>\<open>intersect_closest\<close> and \<^verbatim>\<open>intersect_shadow\<close> set,
  \<^verbatim>\<open>INTEGRATOR_PATH_TERMINATE(intersect_closest)\<close> leaves the bit of \<^verbatim>\<open>intersect_shadow\<close>
  in the mask.
\<close>

theorem terminate_keeps_other_bits_counterexample:
  "path_queued_kernels (state two_kernels_env) = 3
   \<and> path_queued_kernels
       (state (INTEGRATOR_PATH_TERMINATE INTEGRATOR_KERNEL_intersect_closest two_kernels_env)) = 2
   \<and> path_queued_kernels
       (state (INTEGRATOR_PATH_TERMINATE INTEGRATOR_KERNEL_intersect_closest two_kernels_env)) \<noteq> 0"
  by (simp add: two_kernels_env_def macro_defs kernel_bit_simps)

text \<open>
  C3. For two different kernels, \<^verbatim>\<open>INTEGRATOR_PATH_NEXT(current_kernel, next_kernel)\<close>
  decrements the counter of \<^verbatim>\<open>current_kernel\<close> by one, increments the counter of
  \<^verbatim>\<open>next_kernel\<close> by one and leaves every other counter slot unchanged; it clears the bit
  of \<^verbatim>\<open>current_kernel\<close> and sets the bit of \<^verbatim>\<open>next_kernel\<close> in the path's bitmask, leaves
  the other bits, and leaves the liveness flag and the shadow path's state unchanged.
\<close>

theorem next_effect:
  "c \<noteq> n \<Longrightarrow>
     queue (INTEGRATOR_PATH_NEXT c n e) c = queue e c - 1
   \<and> queue (INTEGRATOR_PATH_NEXT c n e) n = queue e n + 1
   \<and> (\<forall>k. k \<noteq> c \<and> k \<noteq> n \<longrightarrow> queue (INTEGRATOR_PATH_NEXT c n e) k = queue e k)
   \<and> \<not> queued_on (path_queued_kernels (state (INTEGRATOR_PATH_NEXT c n e))) c
   \<and> queued_on (path_queued_kernels (state (INTEGRATOR_PATH_NEXT c n e))) n
   \<and> (\<forall>k. k \<noteq> c \<and> k \<noteq> n \<longrightarrow>
         queued_on (path_queued_kernels (state (INTEGRATOR_PATH_NEXT c n e))) k =
         queued_on (path_queued_kernels (state e)) k)
   \<and> path_flag (state (INTEGRATOR_PATH_NEXT c n e)) = path_flag (state e)
   \<and> shadow_path_flag (state (INTEGRATOR_PATH_NEXT c n e)) = shadow_path_flag (state e)
   \<and> shadow_path_queued_kernels (state (INTEGRATOR_PATH_NEXT c n e)) =
       shadow_path_queued_kernels (state e)"
  by (auto simp: macro_defs queued_on_iff bit_and_iff bit_or_iff bit_not_iff bit_kernel_bit
      dest: kernel_index_inj)

text \<open>C3, an instance: from \<^verbatim>\<open>shade_surface\<close> to \<^verbatim>\<open>intersect_closest\<close>.\<close>

theorem next_effect_witness:
  "INTEGRATOR_KERNEL_shade_surface \<noteq> INTEGRATOR_KERNEL_intersect_closest
   \<and> queue (INTEGRATOR_PATH_NEXT INTEGRATOR_KERNEL_shade_surface
              INTEGRATOR_KERNEL_intersect_closest live_surface_env)
        INTEGRATOR_KERNEL_shade_surface = 0
   \<and> queue (INTEGRATOR_PATH_NEXT INTEGRATOR_KERNEL_shade_surface
              INTEGRATOR_KERNEL_intersect_closest live_surface_env)
        INTEGRATOR_KERNEL_intersect_closest = 1
   \<and> queued_on (path_queued_kernels (state
        (INTEGRATOR_PATH_NEXT INTEGRATOR_KERNEL_shade_surface
           INTEGRATOR_KERNEL_intersect_closest live_surface_env)))
        INTEGRATOR_KERNEL_intersect_closest
   \<and> path_flag (state (INTEGRATOR_PATH_NEXT INTEGRATOR_KERNEL_shade_surface
        INTEGRATOR_KERNEL_intersect_closest live_surface_env)) = 1"
proof -
  have h: "INTEGRATOR_KERNEL_shade_surface \<noteq> INTEGRATOR_KERNEL_intersect_closest" by simp
  from next_effect [OF h, of live_surface_env] h
  show ?thesis by (simp add: live_surface_env_def zero_queue_def)
qed

text \<open>
  C4 (amended). In every batch state reached from an all-zero batch of \<open>n\<close> path slots
  (with \<open>2 * n < 2 ^ 31\<close>) by kernel invocations that follow the protocol (a path is
  created in a slot whose flag is clear and that has nothing queued; NEXT and TERMINATE
  name a kernel the path is queued on), the sum over all slots of \<^verbatim>\<open>num_queued\<close>, each
  slot read as the \<^verbatim>\<open>int\<close> it is declared as, equals the number of paths, main and shadow,
  whose liveness flag is set; no slot is negative; and all counters are zero exactly when
  no path is alive. The equality is kept by every step: INIT together with the flag write
  raises the sum and the number of live paths by one each, NEXT changes neither, and
  TERMINATE lowers both by one.
\<close>

theorem counters_match_live_paths:
  assumes "batch_run vs (new_batch n) = Some b" and "2 * n < 2 ^ 31"
  shows "sum_num_queued (counters b) = int (live_count (paths b))
       \<and> unat (sum_queued (counters b)) = live_count (paths b)
       \<and> (\<forall>k. 0 \<le> sint (counters b k))
       \<and> ((\<forall>k. counters b k = 0) \<longleftrightarrow> live_count (paths b) = 0)
       \<and> (\<forall>i w v b'. batch_step i w v b = Some b' \<longrightarrow>
             sum_num_queued (counters b') + int (finished v)
               = sum_num_queued (counters b) + int (created v)
           \<and> unat (sum_queued (counters b')) + finished v
               = unat (sum_queued (counters b)) + created v
           \<and> live_count (paths b') + finished v = live_count (paths b) + created v
           \<and> sum_num_queued (counters b') = int (live_count (paths b'))
           \<and> unat (sum_queued (counters b')) = live_count (paths b'))"
proof -
  from assms(2) have n32: "2 * length (paths (new_batch n)) < 2 ^ 32"
    by (simp add: new_batch_def)
  from batch_run_inv [OF batch_inv_new assms(1) n32]
  have inv: "batch_inv b" and len: "length (paths b) = n" by (simp_all add: new_batch_def)
  from assms(2) len have bound: "2 * length (paths b) < 2 ^ 31" by simp
  then have bound32: "2 * length (paths b) < 2 ^ 32" by simp
  note d = batch_inv_drained [OF inv bound]
  have "sum_num_queued (counters b') + int (finished v)
          = sum_num_queued (counters b) + int (created v)
      \<and> unat (sum_queued (counters b')) + finished v
          = unat (sum_queued (counters b)) + created v
      \<and> live_count (paths b') + finished v = live_count (paths b) + created v
      \<and> sum_num_queued (counters b') = int (live_count (paths b'))
      \<and> unat (sum_queued (counters b')) = live_count (paths b')"
    if st: "batch_step i w v b = Some b'" for i w v b'
  proof -
    note s = batch_step_inv [OF inv st bound32]
    from s(2) bound have "2 * length (paths b') < 2 ^ 31" by simp
    note d' = batch_inv_drained(1,2) [OF s(1) this]
    from s(3) have "int (live_count (paths b')) + int (finished v)
        = int (live_count (paths b)) + int (created v)"
      by (metis of_nat_add)
    with d' d(1,2) s(3) show ?thesis by simp
  qed
  with d show ?thesis by blast
qed

text \<open>
  C4, an instance: after the example run on two slots, the second main path and the shadow
  path of the first slot are alive, and the counters sum to two; terminating the shadow
  path then leaves one live path and a sum of one.
\<close>

theorem counters_match_live_paths_witness:
  "batch_run example_run (new_batch 2) = Some (the (batch_run example_run (new_batch 2)))
   \<and> (2 * 2 < (2::nat) ^ 31)
   \<and> sum_num_queued (counters (the (batch_run example_run (new_batch 2)))) = 2
   \<and> unat (sum_queued (counters (the (batch_run example_run (new_batch 2))))) = 2
   \<and> live_count (paths (the (batch_run example_run (new_batch 2)))) = 2
   \<and> batch_step 0 Shadow_Path (Finish INTEGRATOR_KERNEL_intersect_shadow)
        (the (batch_run example_run (new_batch 2)))
     = Some (the (batch_step 0 Shadow_Path (Finish INTEGRATOR_KERNEL_intersect_shadow)
          (the (batch_run example_run (new_batch 2)))))
   \<and> sum_num_queued (counters (the (batch_step 0 Shadow_Path
          (Finish INTEGRATOR_KERNEL_intersect_shadow)
          (the (batch_run example_run (new_batch 2)))))) = 1
   \<and> live_count (paths (the (batch_step 0 Shadow_Path
          (Finish INTEGRATOR_KERNEL_intersect_shadow)
          (the (batch_run example_run (new_batch 2)))))) = 1"
proof -
  let ?b = "the (batch_run example_run (new_batch 2))"
  let ?b' = "the (batch_step 0 Shadow_Path (Finish INTEGRATOR_KERNEL_intersect_shadow) ?b)"
  have h: "batch_run example_run (new_batch 2) = Some ?b"
    by (rule example_run_result)
  have b: "2 * 2 < (2::nat) ^ 31" by simp
  note t = counters_match_live_paths [OF h b]
  from t have e1: "sum_num_queued (counters ?b) = int (live_count (paths ?b))"
    and e2: "unat (sum_queued (counters ?b)) = live_count (paths ?b)"
    by blast+
  from t example_last_step
  have s1: "live_count (paths ?b') + finished (Finish INTEGRATOR_KERNEL_intersect_shadow)
      = live_count (paths ?b) + created (Finish INTEGRATOR_KERNEL_intersect_shadow)"
    and s2: "sum_num_queued (counters ?b') = int (live_count (paths ?b'))"
    by blast+
  from s1 example_run_live have l': "live_count (paths ?b') = 1" by simp
  with s2 have "sum_num_queued (counters ?b') = 1" by simp
  with h b e1 e2 example_run_live example_last_step l' show ?thesis by simp
qed

text \<open>
  C4 as stated has the sum of the counters preserved by INIT together with the flag write.
  It is not: on a fresh batch of one slot the sum is 0, and after the path is created it
  is 1.
\<close>

theorem sum_not_preserved_by_init_counterexample:
  "sum_queued (counters (new_batch 1)) = 0
   \<and> sum_num_queued (counters (new_batch 1)) = 0
   \<and> map_option (sum_queued \<circ> counters)
       (batch_step 0 Main_Path (Create 1 INTEGRATOR_KERNEL_intersect_closest) (new_batch 1))
     = Some 1
   \<and> map_option (sum_num_queued \<circ> counters)
       (batch_step 0 Main_Path (Create 1 INTEGRATOR_KERNEL_intersect_closest) (new_batch 1))
     = Some 1
   \<and> map_option (sum_queued \<circ> counters)
       (batch_step 0 Main_Path (Create 1 INTEGRATOR_KERNEL_intersect_closest) (new_batch 1))
     \<noteq> Some (sum_queued (counters (new_batch 1)))"
  by (simp add: new_batch_def batch_step_def fresh_state_def macro_defs sum_queued_def
      sum_num_queued_def all_kernels_def zero_queue_def)

text \<open>
  C5. \<^verbatim>\<open>INTEGRATOR_PATH_INIT(next_kernel)\<close> increments the counter of \<^verbatim>\<open>next_kernel\<close> by
  one and changes no other slot, and sets the bit of \<^verbatim>\<open>next_kernel\<close> in the path's bitmask;
  on a freshly created path, whose mask is empty, the mask becomes exactly that bit. One
  unit enters the counters with INIT (the sum rises by one), NEXT moves one unit from the
  slot of the current kernel to the slot of the next kernel (the sum is unchanged), and
  TERMINATE removes one unit from the slot of the current kernel and increments no slot
  (the sum falls by one).
\<close>

theorem counter_unit_moves:
  "queue (INTEGRATOR_PATH_INIT k e) = (queue e)(k := queue e k + 1)
   \<and> sum_queued (queue (INTEGRATOR_PATH_INIT k e)) = sum_queued (queue e) + 1
   \<and> queued_on (path_queued_kernels (state (INTEGRATOR_PATH_INIT k e))) k
   \<and> (path_queued_kernels (state e) = 0 \<longrightarrow>
        path_queued_kernels (state (INTEGRATOR_PATH_INIT k e)) = kernel_bit k)
   \<and> queue (INTEGRATOR_PATH_NEXT c n e) =
        ((queue e)(c := queue e c - 1))(n := ((queue e)(c := queue e c - 1)) n + 1)
   \<and> sum_queued (queue (INTEGRATOR_PATH_NEXT c n e)) = sum_queued (queue e)
   \<and> queue (INTEGRATOR_PATH_TERMINATE c e) = (queue e)(c := queue e c - 1)
   \<and> sum_queued (queue (INTEGRATOR_PATH_TERMINATE c e)) = sum_queued (queue e) - 1"
  by (simp add: macro_defs queued_on_iff bit_or_iff bit_kernel_bit sum_queued_upd)

text \<open>C5, an instance: INIT for \<^verbatim>\<open>intersect_closest\<close> on a fresh path.\<close>

theorem counter_unit_moves_witness:
  "path_queued_kernels (state drained_env) = 0
   \<and> path_queued_kernels
       (state (INTEGRATOR_PATH_INIT INTEGRATOR_KERNEL_intersect_closest drained_env)) = 1
   \<and> queue (INTEGRATOR_PATH_INIT INTEGRATOR_KERNEL_intersect_closest drained_env)
       INTEGRATOR_KERNEL_intersect_closest = 1
   \<and> sum_queued (queue (INTEGRATOR_PATH_INIT INTEGRATOR_KERNEL_intersect_closest drained_env))
     = 1"
proof -
  have h: "path_queued_kernels (state drained_env) = 0" by (simp add: drained_env_def)
  have s: "sum_queued (queue drained_env) = 0"
    by (simp add: drained_env_def sum_queued_def all_kernels_def zero_queue_def)
  have q: "queue drained_env INTEGRATOR_KERNEL_intersect_closest = 0"
    by (simp add: drained_env_def zero_queue_def)
  note t = counter_unit_moves [of INTEGRATOR_KERNEL_intersect_closest drained_env
      INTEGRATOR_KERNEL_intersect_closest INTEGRATOR_KERNEL_intersect_closest]
  from t have e1: "queue (INTEGRATOR_PATH_INIT INTEGRATOR_KERNEL_intersect_closest drained_env)
      = (queue drained_env)(INTEGRATOR_KERNEL_intersect_closest :=
           queue drained_env INTEGRATOR_KERNEL_intersect_closest + 1)"
    and e2: "sum_queued (queue (INTEGRATOR_PATH_INIT INTEGRATOR_KERNEL_intersect_closest drained_env))
      = sum_queued (queue drained_env) + 1"
    and e3: "path_queued_kernels (state drained_env) = 0 \<longrightarrow>
        path_queued_kernels
          (state (INTEGRATOR_PATH_INIT INTEGRATOR_KERNEL_intersect_closest drained_env))
        = kernel_bit INTEGRATOR_KERNEL_intersect_closest"
    by blast+
  from e3 h have "path_queued_kernels
       (state (INTEGRATOR_PATH_INIT INTEGRATOR_KERNEL_intersect_closest drained_env)) = 1"
    by (simp add: kernel_bit_simps)
  moreover have "queue (INTEGRATOR_PATH_INIT INTEGRATOR_KERNEL_intersect_closest drained_env)
       INTEGRATOR_KERNEL_intersect_closest = 1"
    unfolding e1 by (simp add: q)
  moreover
  have "sum_queued (queue (INTEGRATOR_PATH_INIT INTEGRATOR_KERNEL_intersect_closest drained_env))
     = 1"
    unfolding e2 by (simp add: s)
  ultimately show ?thesis using h by simp
qed

text \<open>
  C6. The shadow-path macros leave the main path's liveness flag and bitmask unchanged,
  and the main-path macros leave the shadow path's flag and bitmask unchanged, in the
  device variant and in the host variant alike. A shadow path therefore terminates without
  terminating its parent, and the parent without terminating the shadow path. The counter
  array is the state both touch: a shadow-path macro updates it exactly as the main-path
  macro of the same name does.
\<close>

theorem shadow_main_frame:
  "path_flag (state (INTEGRATOR_SHADOW_PATH_INIT k e)) = path_flag (state e)
   \<and> path_queued_kernels (state (INTEGRATOR_SHADOW_PATH_INIT k e)) = path_queued_kernels (state e)
   \<and> path_flag (state (INTEGRATOR_SHADOW_PATH_NEXT c n e)) = path_flag (state e)
   \<and> path_queued_kernels (state (INTEGRATOR_SHADOW_PATH_NEXT c n e)) = path_queued_kernels (state e)
   \<and> path_flag (state (INTEGRATOR_SHADOW_PATH_TERMINATE c e)) = path_flag (state e)
   \<and> path_queued_kernels (state (INTEGRATOR_SHADOW_PATH_TERMINATE c e)) = path_queued_kernels (state e)
   \<and> shadow_path_flag (state (INTEGRATOR_PATH_INIT k e)) = shadow_path_flag (state e)
   \<and> shadow_path_queued_kernels (state (INTEGRATOR_PATH_INIT k e)) = shadow_path_queued_kernels (state e)
   \<and> shadow_path_flag (state (INTEGRATOR_PATH_NEXT c n e)) = shadow_path_flag (state e)
   \<and> shadow_path_queued_kernels (state (INTEGRATOR_PATH_NEXT c n e)) = shadow_path_queued_kernels (state e)
   \<and> shadow_path_flag (state (INTEGRATOR_PATH_TERMINATE c e)) = shadow_path_flag (state e)
   \<and> shadow_path_queued_kernels (state (INTEGRATOR_PATH_TERMINATE c e)) = shadow_path_queued_kernels (state e)
   \<and> path_flag (state (exec_host Shadow_Path t e)) = path_flag (state e)
   \<and> path_queued_kernels (state (exec_host Shadow_Path t e)) = path_queued_kernels (state e)
   \<and> shadow_path_flag (state (exec_host Main_Path t e)) = shadow_path_flag (state e)
   \<and> shadow_path_queued_kernels (state (exec_host Main_Path t e)) = shadow_path_queued_kernels (state e)
   \<and> INTEGRATOR_PATH_IS_TERMINATED (INTEGRATOR_SHADOW_PATH_TERMINATE c e)
       = INTEGRATOR_PATH_IS_TERMINATED e
   \<and> INTEGRATOR_SHADOW_PATH_IS_TERMINATED (INTEGRATOR_SHADOW_PATH_TERMINATE c e)
   \<and> INTEGRATOR_SHADOW_PATH_IS_TERMINATED (INTEGRATOR_PATH_TERMINATE c e)
       = INTEGRATOR_SHADOW_PATH_IS_TERMINATED e
   \<and> INTEGRATOR_PATH_IS_TERMINATED (INTEGRATOR_PATH_TERMINATE c e)
   \<and> queue (INTEGRATOR_SHADOW_PATH_INIT k e) = queue (INTEGRATOR_PATH_INIT k e)
   \<and> queue (INTEGRATOR_SHADOW_PATH_NEXT c n e) = queue (INTEGRATOR_PATH_NEXT c n e)
   \<and> queue (INTEGRATOR_SHADOW_PATH_TERMINATE c e) = queue (INTEGRATOR_PATH_TERMINATE c e)"
proof -
  have host: "path_flag (state (exec_host Shadow_Path t e)) = path_flag (state e)
   \<and> path_queued_kernels (state (exec_host Shadow_Path t e)) = path_queued_kernels (state e)
   \<and> shadow_path_flag (state (exec_host Main_Path t e)) = shadow_path_flag (state e)
   \<and> shadow_path_queued_kernels (state (exec_host Main_Path t e)) = shadow_path_queued_kernels (state e)"
    by (cases t) (simp_all add: host_defs)
  show ?thesis
    by (simp add: host macro_defs INTEGRATOR_PATH_IS_TERMINATED_def
        INTEGRATOR_SHADOW_PATH_IS_TERMINATED_def del: exec_host.simps)
qed

text \<open>
  C7. After any sequence of macro invocations, the host variant yields the state of the
  device variant with the counters and the two queued-kernel bitmasks put back to their
  initial values: the variants differ in nothing else. In particular
  \<^verbatim>\<open>INTEGRATOR_PATH_IS_TERMINATED\<close> and \<^verbatim>\<open>INTEGRATOR_SHADOW_PATH_IS_TERMINATED\<close> agree
  between them. Both variants of both TERMINATE macros set the liveness flag to zero, and
  the host variants of INIT and NEXT change no state at all.
\<close>

theorem gpu_host_equivalence:
  "run_host ts e =
     (run_gpu ts e)\<lparr>queue := queue e,
        state := (state (run_gpu ts e))\<lparr>path_queued_kernels := path_queued_kernels (state e),
           shadow_path_queued_kernels := shadow_path_queued_kernels (state e)\<rparr>\<rparr>
   \<and> INTEGRATOR_PATH_IS_TERMINATED (run_gpu ts e) = INTEGRATOR_PATH_IS_TERMINATED (run_host ts e)
   \<and> INTEGRATOR_SHADOW_PATH_IS_TERMINATED (run_gpu ts e)
       = INTEGRATOR_SHADOW_PATH_IS_TERMINATED (run_host ts e)
   \<and> INTEGRATOR_PATH_IS_TERMINATED (INTEGRATOR_PATH_TERMINATE c e)
   \<and> INTEGRATOR_PATH_IS_TERMINATED (INTEGRATOR_PATH_TERMINATE_host c e)
   \<and> INTEGRATOR_SHADOW_PATH_IS_TERMINATED (INTEGRATOR_SHADOW_PATH_TERMINATE c e)
   \<and> INTEGRATOR_SHADOW_PATH_IS_TERMINATED (INTEGRATOR_SHADOW_PATH_TERMINATE_host c e)
   \<and> INTEGRATOR_PATH_INIT_host k e = e
   \<and> INTEGRATOR_PATH_NEXT_host c n e = e
   \<and> INTEGRATOR_SHADOW_PATH_INIT_host k e = e
   \<and> INTEGRATOR_SHADOW_PATH_NEXT_host c n e = e"
proof -
  note fl = run_flags_agree [of e e ts, OF refl refl]
  note un = run_host_unchanged [of ts e]
  have "state (run_host ts e) =
      (state (run_gpu ts e))\<lparr>path_queued_kernels := path_queued_kernels (state e),
           shadow_path_queued_kernels := shadow_path_queued_kernels (state e)\<rparr>"
    by (rule IntegratorState.equality) (simp_all add: fl un)
  then have "run_host ts e =
     (run_gpu ts e)\<lparr>queue := queue e,
        state := (state (run_gpu ts e))\<lparr>path_queued_kernels := path_queued_kernels (state e),
           shadow_path_queued_kernels := shadow_path_queued_kernels (state e)\<rparr>\<rparr>"
    by (intro kernel_env.equality) (simp_all add: un)
  then show ?thesis
    using fl
    by (simp add: INTEGRATOR_PATH_IS_TERMINATED_def INTEGRATOR_SHADOW_PATH_IS_TERMINATED_def
        macro_defs host_defs)
qed

text \<open>
  C8. On the device queue as the spec describes it, failure is sticky and propagated: once
  an enqueue has returned false, every later enqueue on the queue returns false, whatever
  calls lie between; \<^verbatim>\<open>synchronize\<close> returns false if any call since the queue was last
  free of errors reported a failure; a \<^verbatim>\<open>synchronize\<close> that returns true leaves no
  enqueued work pending, and no other call ever lowers the amount of pending work.
\<close>

theorem device_queue_failure_sticky:
  "(\<not> fst (DeviceQueue_enqueue kernel_ok work_size q) \<longrightarrow>
      \<not> fst (DeviceQueue_enqueue kernel_ok' work_size'
              (run_calls cs (snd (DeviceQueue_enqueue kernel_ok work_size q)))))
   \<and> ((\<exists>c \<in> set cs. reports_failure c) \<longrightarrow>
      \<not> fst (DeviceQueue_synchronize kernels_ok (run_calls cs q)))
   \<and> (fst (DeviceQueue_synchronize kernels_ok q) \<longrightarrow>
      pending_work (snd (DeviceQueue_synchronize kernels_ok q)) = 0)
   \<and> (pending_work (snd (do_call c q)) < pending_work q \<longrightarrow>
      is_synchronize c \<and> fst (do_call c q))"
proof -
  have a: "have_error (snd (DeviceQueue_enqueue kernel_ok work_size q))"
    if "\<not> fst (DeviceQueue_enqueue kernel_ok work_size q)"
    using that by (simp add: DeviceQueue_enqueue_def split: if_splits)
  have b: "\<not> fst (DeviceQueue_enqueue kernel_ok' work_size' q')" if "have_error q'" for q'
    using that by (simp add: DeviceQueue_enqueue_def)
  have c: "\<not> fst (DeviceQueue_synchronize kernels_ok q')" if "have_error q'" for q'
    using that by (simp add: DeviceQueue_synchronize_def)
  have d: "pending_work (snd (do_call c q)) < pending_work q \<longrightarrow>
      is_synchronize c \<and> fst (do_call c q)"
    by (cases c) (simp_all add: DeviceQueue_enqueue_def DeviceQueue_synchronize_def)
  have e: "fst (DeviceQueue_synchronize kernels_ok q) \<longrightarrow>
      pending_work (snd (DeviceQueue_synchronize kernels_ok q)) = 0"
    by (simp add: DeviceQueue_synchronize_def)
  from a b c d e run_calls_error run_calls_failure show ?thesis by blast
qed

text \<open>
  C8, an instance on a queue with three units of pending work and no error: a failing
  enqueue makes a later, otherwise successful enqueue fail; a failing enqueue makes the
  next \<^verbatim>\<open>synchronize\<close> fail; a successful \<^verbatim>\<open>synchronize\<close> drains the pending work.
\<close>

theorem device_queue_failure_sticky_witness:
  "\<not> fst (DeviceQueue_enqueue False 8 idle_queue)
   \<and> \<not> fst (DeviceQueue_enqueue True 8
            (run_calls [Synchronize True, Enqueue False 1]
               (snd (DeviceQueue_enqueue False 8 idle_queue))))
   \<and> reports_failure (Enqueue False 1)
   \<and> \<not> fst (DeviceQueue_synchronize True
            (run_calls [Synchronize True, Enqueue False 1] idle_queue))
   \<and> fst (DeviceQueue_synchronize True idle_queue)
   \<and> pending_work (snd (DeviceQueue_synchronize True idle_queue)) = 0
   \<and> pending_work (snd (do_call (Synchronize True) idle_queue)) < pending_work idle_queue
   \<and> is_synchronize (Synchronize True)
   \<and> fst (do_call (Synchronize True) idle_queue)"
proof -
  have h1: "\<not> fst (DeviceQueue_enqueue False 8 idle_queue)"
    by (simp add: DeviceQueue_enqueue_def)
  have h2: "\<exists>c \<in> set [Synchronize True, Enqueue False 1]. reports_failure c"
    by simp
  have h3: "fst (DeviceQueue_synchronize True idle_queue)"
    by (simp add: DeviceQueue_synchronize_def idle_queue_def)
  have h4: "pending_work (snd (do_call (Synchronize True) idle_queue)) < pending_work idle_queue"
    by (simp add: DeviceQueue_synchronize_def idle_queue_def)
  from device_queue_failure_sticky [of False 8 idle_queue True 8
      "[Synchronize True, Enqueue False 1]" True "Synchronize True"] h1 h2 h3 h4
  show ?thesis by simp
qed



text \<open>
  C10. \<^verbatim>\<open>set_spline_resolution\<close> stores \<open>max r 1\<close> as the spline's resolution for every
  integer \<open>r\<close>, so the resolution is at least 1 afterwards, and marks the spline's
  evaluation cache invalid. A write of \<open>r\<close> through the resolution write attribute at the
  index of a spline of the curve does this to that spline and leaves the other splines as
  they were.
\<close>

theorem resolution_write_clamps:
  "resolution_u (set_spline_resolution spline r) = max r 1
   \<and> get_spline_resolution (set_spline_resolution spline r) = max r 1
   \<and> 1 \<le> get_spline_resolution (set_spline_resolution spline r)
   \<and> cache_dirty (set_spline_resolution spline r)
   \<and> is_cyclic (set_spline_resolution spline r) = is_cyclic spline
   \<and> (index < length (splines curve) \<longrightarrow>
        (\<exists>curve'. resolution_attribute_set curve index r = Some curve'
           \<and> resolution_attribute_get curve' index = Some (max r 1)
           \<and> cache_dirty (splines curve' ! index)
           \<and> length (splines curve') = length (splines curve)
           \<and> (\<forall>j < length (splines curve). j \<noteq> index \<longrightarrow>
                 splines curve' ! j = splines curve ! j)))"
  by (auto simp: set_spline_resolution_def get_spline_resolution_def Spline_resolution_def
      Spline_set_resolution_def Spline_mark_cache_invalid_def std_max_def
      resolution_attribute_set_def resolution_attribute_get_def
      DerivedArrayWriteAttribute_set_def DerivedArrayWriteAttribute_get_def)

text \<open>
  C10, an instance: writing \<open>-5\<close> to the first of the two splines of the example curve
  stores 1 there, marks its cache invalid and leaves the second spline alone.
\<close>

theorem resolution_write_clamps_witness:
  "0 < length (splines example_curve)
   \<and> resolution_attribute_set example_curve 0 (- 5) =
       Some \<lparr>splines = [\<lparr>resolution_u = 1, is_cyclic = False, cache_dirty = True\<rparr>,
                         \<lparr>resolution_u = 4, is_cyclic = True, cache_dirty = False\<rparr>]\<rparr>
   \<and> resolution_u (set_spline_resolution (splines example_curve ! 0) (- 5)) = 1"
proof -
  have h: "0 < length (splines example_curve)" by (simp add: example_curve_def)
  from resolution_write_clamps [of "splines example_curve ! 0" "- 5" 0 example_curve] h
  show ?thesis
    by (simp add: example_curve_def resolution_attribute_set_def
        DerivedArrayWriteAttribute_set_def set_spline_resolution_def std_max_def
        Spline_set_resolution_def Spline_mark_cache_invalid_def)
qed

end
